theory Spec2Isabelle
  imports Main "HOL-Library.Sublist"
begin

section \<open>The model\<close>

text \<open>
  The definitions follow \<open>web/Server.ts\<close>, class by class. What the file takes from
  its surroundings (the host's interface table, the configuration store, the id
  generator, the file system, the peer's answers) is a parameter or a field that records
  the calls made.
\<close>

subsection \<open>AddressResolver: \<open>WebServer.getInterface\<close>, \<open>ip\<close> and \<open>mac\<close>\<close>

text \<open>
  One entry of \<open>os.networkInterfaces()\<close>, with the four fields that
  \<open>getInterface\<close> reads. The table itself is an object keyed by the name of the
  interface, each key holding an array of entries; \<open>for ... in\<close> walks the keys in
  the order of the object and the indices of each array upwards, so the table is an
  association list in that order.
\<close>

record NetworkInterfaceInfo =
  nic_address :: string
  nic_family :: string
  nic_mac :: string
  nic_internal :: bool

type_synonym interface_table = "(string \<times> NetworkInterfaceInfo list) list"

text \<open>
  \<open>String.prototype.indexOf\<close>: the index of the first occurrence of the pattern, or
  \<open>-1\<close> when there is none.
\<close>

fun indexOf_at :: "nat \<Rightarrow> string \<Rightarrow> string \<Rightarrow> int" where
  "indexOf_at i [] pat = (if pat = [] then int i else - 1)"
| "indexOf_at i (c # cs) pat =
     (if take (length pat) (c # cs) = pat then int i else indexOf_at (Suc i) cs pat)"

definition indexOf :: "string \<Rightarrow> string \<Rightarrow> int" where
  "indexOf s pat = indexOf_at 0 s pat"

text \<open>The private field \<open>family = 'IPv4'\<close> of \<open>WebServer\<close>.\<close>

definition web_family :: string where
  "web_family = ''IPv4''"

text \<open>The inner loop of \<open>getInterface\<close>, over the entries of one interface.\<close>

fun scan_nic :: "NetworkInterfaceInfo list \<Rightarrow> NetworkInterfaceInfo option" where
  "scan_nic [] = None"
| "scan_nic (addr # rest) =
     (if \<not> nic_internal addr \<and> indexOf (nic_mac addr) ''00:00:00:'' < 0
         \<and> nic_family addr = web_family
      then Some addr else scan_nic rest)"

text \<open>
  The outer loop. \<open>None\<close> is the \<open>undefined\<close> that the function returns when it
  falls off its end.
\<close>

fun getInterface :: "interface_table \<Rightarrow> NetworkInterfaceInfo option" where
  "getInterface [] = None"
| "getInterface ((name, nic) # rest) =
     (case scan_nic nic of Some addr \<Rightarrow> Some addr | None \<Rightarrow> getInterface rest)"

definition ip :: "interface_table \<Rightarrow> string" where
  "ip tbl = (case getInterface tbl of None \<Rightarrow> ''0.0.0.0'' | Some addr \<Rightarrow> nic_address addr)"

definition mac :: "interface_table \<Rightarrow> string" where
  "mac tbl = (case getInterface tbl of None \<Rightarrow> ''00:00:00:00'' | Some addr \<Rightarrow> nic_mac addr)"

text \<open>
  The entries the claim speaks of, in its own words: not internal, of family IPv4, and
  with a hardware address that does not contain \<open>00:00:00:\<close>.
\<close>

definition scope_local :: "NetworkInterfaceInfo \<Rightarrow> bool" where
  "scope_local a \<longleftrightarrow>
     \<not> nic_internal a \<and> nic_family a = ''IPv4'' \<and> \<not> sublist ''00:00:00:'' (nic_mac a)"

text \<open>A host with a loopback entry and one network card carrying an IPv6 and an IPv4 entry.\<close>

definition nic_lo :: NetworkInterfaceInfo where
  "nic_lo = \<lparr>nic_address = ''127.0.0.1'', nic_family = ''IPv4'',
            nic_mac = ''00:00:00:00:00:00'', nic_internal = True\<rparr>"

definition nic_eth6 :: NetworkInterfaceInfo where
  "nic_eth6 = \<lparr>nic_address = ''fe80::1'', nic_family = ''IPv6'',
            nic_mac = ''b8:27:eb:12:34:56'', nic_internal = False\<rparr>"

definition nic_eth4 :: NetworkInterfaceInfo where
  "nic_eth4 = \<lparr>nic_address = ''192.168.1.20'', nic_family = ''IPv4'',
            nic_mac = ''b8:27:eb:12:34:56'', nic_internal = False\<rparr>"

definition host_table :: interface_table where
  "host_table = [(''lo'', [nic_lo]), (''eth0'', [nic_eth6, nic_eth4])]"

subsection \<open>ServerRegistry: \<open>WebServer.init\<close>, \<open>initInterfaces\<close> and \<open>stopAsync\<close>\<close>

subsubsection \<open>Handles and configuration entries\<close>

text \<open>
  The classes that \<open>WebServer\<close> instantiates, all subclasses of \<open>ProtoServer\<close>.
\<close>

datatype server_class = HttpServer | Http2Server | HttpsServer | MdnsServer | SsdpServer
  | HttpInterfaceServer | InfluxInterfaceServer | MqttInterfaceServer | REMInterfaceServer

text \<open>
  A configuration entry, as far as the registry reads it: \<open>c.uuid\<close> (\<open>None\<close> when
  \<open>typeof c.uuid === 'undefined'\<close>), the truthiness of \<open>c.enabled\<close>, and the
  \<open>type\<close> and \<open>name\<close> of an interface entry (\<open>None\<close> when undefined).
\<close>

record config_entry =
  cfg_uuid :: "string option"
  cfg_enabled :: bool
  cfg_type :: "string option"
  cfg_name :: "string option"

text \<open>
  The fields of \<open>ProtoServer\<close> that the registry touches, with the class of the
  instance. \<open>uuid\<close> is undefined until \<open>init\<close> runs.
\<close>

record ProtoServer =
  ps_class :: server_class
  ps_name :: "string option"
  ps_type :: string
  ps_uuid :: "string option"
  ps_isRunning :: bool

text \<open>
  The constructor: \<open>this.name = name; this.type = type\<close>, with \<open>isRunning\<close>
  initialised to \<open>false\<close>.
\<close>

definition new_ProtoServer :: "server_class \<Rightarrow> string option \<Rightarrow> string \<Rightarrow> ProtoServer" where
  "new_ProtoServer cls name type =
     \<lparr>ps_class = cls, ps_name = name, ps_type = type, ps_uuid = None, ps_isRunning = False\<rparr>"

text \<open>
  What the \<open>if (cfg.enabled) { ... }\<close> part of a handle's \<open>init\<close> does depends on
  the host (ports, files, sockets), so it is a parameter: it reaches its
  \<open>this.isRunning = true\<close>, it leaves the flag alone (\<open>Http2Server\<close>; \<open>SsdpServer\<close>,
  whose flag is set later by a callback; \<open>HttpsServer\<close> without its key files), it sets
  the flag to \<open>false\<close> (the \<open>catch\<close> of \<open>loadBindings\<close>), or it throws.
\<close>

datatype start_outcome = Started | NotStarted | MarkedDown | StartThrew

type_synonym host_env = "server_class \<Rightarrow> config_entry \<Rightarrow> start_outcome"

text \<open>
  \<open>init(cfg)\<close> of a handle. Every subclass starts with \<open>this.uuid = cfg.uuid\<close> and
  does the rest only under \<open>cfg.enabled\<close>. The second component says whether the call
  threw.
\<close>

definition server_init :: "host_env \<Rightarrow> config_entry \<Rightarrow> ProtoServer \<Rightarrow> ProtoServer \<times> bool" where
  "server_init env cfg srv =
     (let srv1 = srv\<lparr>ps_uuid := cfg_uuid cfg\<rparr> in
      if cfg_enabled cfg then
        (case env (ps_class srv) cfg of
           Started \<Rightarrow> (srv1\<lparr>ps_isRunning := True\<rparr>, False)
         | NotStarted \<Rightarrow> (srv1, False)
         | MarkedDown \<Rightarrow> (srv1\<lparr>ps_isRunning := False\<rparr>, False)
         | StartThrew \<Rightarrow> (srv1, True))
      else (srv1, False))"

subsubsection \<open>The registry\<close>

text \<open>
  \<open>_servers\<close> holds the handles in registration order; a slot holds \<open>None\<close> once
  \<open>stopAsync\<close> has written \<open>undefined\<close> into it. The configuration store and the
  id generator are collaborators of the registry: \<open>persisted\<close> lists the calls of
  \<open>config.setSection(path, c)\<close>, oldest first, and \<open>uuid_count\<close> counts the calls of
  \<open>utils.uuid()\<close>, whose results are a parameter \<open>gen\<close> of the operations.
\<close>

record WebServer =
  servers :: "ProtoServer option list"
  persisted :: "(string \<times> config_entry) list"
  uuid_count :: nat

text \<open>
  A call returns, or it throws; either way the mutations made so far stay.
\<close>

datatype 'a completion = Returned 'a | Threw 'a

definition server_path :: "string \<Rightarrow> string" where
  "server_path s = ''web.servers.'' @ s"

definition interface_path :: "string \<Rightarrow> string" where
  "interface_path s = ''web.interfaces.'' @ s"

text \<open>
  The first statement of both loops:
  \<^verbatim>\<open>if (typeof c.uuid === 'undefined') { c.uuid = utils.uuid(); config.setSection(path, c); }\<close>
  The entry is mutated in place, so the updated entry is returned with the registry.
\<close>

definition assign_uuid ::
  "(nat \<Rightarrow> string) \<Rightarrow> string \<Rightarrow> config_entry \<Rightarrow> WebServer \<Rightarrow> config_entry \<times> WebServer" where
  "assign_uuid gen path c w =
     (if cfg_uuid c = None then
        (let c' = c\<lparr>cfg_uuid := Some (gen (uuid_count w))\<rparr> in
         (c', w\<lparr>persisted := persisted w @ [(path, c')], uuid_count := Suc (uuid_count w)\<rparr>))
      else (c, w))"

text \<open>
  The \<open>switch (s)\<close> of \<open>init\<close>: a handle named and typed after the key, for the five
  known keys; \<open>srv\<close> stays undefined for any other key.
\<close>

definition server_for_key :: "string \<Rightarrow> ProtoServer option" where
  "server_for_key s =
     (if s = ''http'' then Some (new_ProtoServer HttpServer (Some s) s)
      else if s = ''http2'' then Some (new_ProtoServer Http2Server (Some s) s)
      else if s = ''https'' then Some (new_ProtoServer HttpsServer (Some s) s)
      else if s = ''mdns'' then Some (new_ProtoServer MdnsServer (Some s) s)
      else if s = ''ssdp'' then Some (new_ProtoServer SsdpServer (Some s) s)
      else None)"

text \<open>
  The body of the loop over \<open>cfg.servers\<close>. There is no test of \<open>c.enabled\<close> here:
  the handle is pushed, then initialised.
\<close>

definition init_entry ::
  "(nat \<Rightarrow> string) \<Rightarrow> host_env \<Rightarrow> string \<times> config_entry \<Rightarrow> WebServer
     \<Rightarrow> ((string \<times> config_entry) \<times> WebServer) completion" where
  "init_entry gen env e w =
     (case e of (s, c) \<Rightarrow>
       (case assign_uuid gen (server_path s) c w of (c', w1) \<Rightarrow>
         (case server_for_key s of
            None \<Rightarrow> Returned ((s, c'), w1)
          | Some srv \<Rightarrow>
              (case server_init env c' srv of (srv', threw) \<Rightarrow>
                (let w2 = w1\<lparr>servers := servers w1 @ [Some srv']\<rparr> in
                 if threw then Threw ((s, c'), w2) else Returned ((s, c'), w2))))))"

text \<open>
\<open>c.type || 'http'\<close>.
\<close>

definition interface_type :: "config_entry \<Rightarrow> string" where
  "interface_type c = (case cfg_type c of None \<Rightarrow> ''http'' | Some t \<Rightarrow> if t = [] then ''http'' else t)"

text \<open>
The \<open>switch (type)\<close> of \<open>initInterfaces\<close>.
\<close>

definition interface_for_type :: "string \<Rightarrow> string option \<Rightarrow> ProtoServer option" where
  "interface_for_type type name =
     (if type = ''http'' then Some (new_ProtoServer HttpInterfaceServer name type)
      else if type = ''influx'' then Some (new_ProtoServer InfluxInterfaceServer name type)
      else if type = ''mqtt'' then Some (new_ProtoServer MqttInterfaceServer name type)
      else if type = ''rem'' then Some (new_ProtoServer REMInterfaceServer name type)
      else None)"

text \<open>
  The body of the loop of \<open>initInterfaces\<close>: \<open>if (!c.enabled) continue;\<close> comes right
  after the id assignment, and a handle is initialised before it is pushed.
\<close>

definition initInterfaces_entry ::
  "(nat \<Rightarrow> string) \<Rightarrow> host_env \<Rightarrow> string \<times> config_entry \<Rightarrow> WebServer
     \<Rightarrow> ((string \<times> config_entry) \<times> WebServer) completion" where
  "initInterfaces_entry gen env e w =
     (case e of (s, c) \<Rightarrow>
       (case assign_uuid gen (interface_path s) c w of (c', w1) \<Rightarrow>
         if \<not> cfg_enabled c' then Returned ((s, c'), w1)
         else
           (case interface_for_type (interface_type c') (cfg_name c') of
              None \<Rightarrow> Returned ((s, c'), w1)
            | Some intf \<Rightarrow>
                (case server_init env c' intf of (intf', threw) \<Rightarrow>
                  if threw then Threw ((s, c'), w1)
                  else Returned ((s, c'), w1\<lparr>servers := servers w1 @ [Some intf']\<rparr>)))))"

text \<open>
  \<open>for (let s in obj) body\<close>: the entries in order, stopping at the first body that
  throws. The entries come back as the bodies left them.
\<close>

fun for_in ::
  "('e \<Rightarrow> 's \<Rightarrow> ('e \<times> 's) completion) \<Rightarrow> 'e list \<Rightarrow> 's \<Rightarrow> ('e list \<times> 's) completion" where
  "for_in body [] w = Returned ([], w)"
| "for_in body (e # rest) w =
     (case body e w of
        Threw (e', w1) \<Rightarrow> Threw (e' # rest, w1)
      | Returned (e', w1) \<Rightarrow>
          (case for_in body rest w1 of
             Threw (rest', w2) \<Rightarrow> Threw (e' # rest', w2)
           | Returned (rest', w2) \<Rightarrow> Returned (e' # rest', w2)))"

definition initInterfaces ::
  "(nat \<Rightarrow> string) \<Rightarrow> host_env \<Rightarrow> (string \<times> config_entry) list \<Rightarrow> WebServer
     \<Rightarrow> ((string \<times> config_entry) list \<times> WebServer) completion" where
  "initInterfaces gen env interfaces w = for_in (initInterfaces_entry gen env) interfaces w"

text \<open>
The section \<open>web\<close> of the configuration.
\<close>

record web_section =
  web_servers :: "(string \<times> config_entry) list"
  web_interfaces :: "(string \<times> config_entry) list"

text \<open>
  \<open>WebServer.init\<close>: the loop over \<open>cfg.servers\<close>, then
  \<open>this.initInterfaces(cfg.interfaces)\<close>.
\<close>

definition init ::
  "(nat \<Rightarrow> string) \<Rightarrow> host_env \<Rightarrow> web_section \<Rightarrow> WebServer \<Rightarrow> (web_section \<times> WebServer) completion" where
  "init gen env cfg w =
     (case for_in (init_entry gen env) (web_servers cfg) w of
        Threw (ss, w1) \<Rightarrow> Threw (cfg\<lparr>web_servers := ss\<rparr>, w1)
      | Returned (ss, w1) \<Rightarrow>
          (case initInterfaces gen env (web_interfaces cfg) w1 of
             Threw (ifs, w2) \<Rightarrow> Threw (\<lparr>web_servers = ss, web_interfaces = ifs\<rparr>, w2)
           | Returned (ifs, w2) \<Rightarrow> Returned (\<lparr>web_servers = ss, web_interfaces = ifs\<rparr>, w2)))"

subsubsection \<open>Stopping\<close>

text \<open>
  What one run of \<open>stopAsync\<close> did: the array afterwards, the handles whose
  \<open>stopAsync\<close> was called, in call order, and the indices that \<open>console.log\<close>
  reported from the \<open>catch\<close>.
\<close>

record stop_report =
  stop_servers :: "ProtoServer option list"
  stop_calls :: "ProtoServer list"
  stop_logged :: "nat list"

text \<open>
  \<^verbatim>\<open>for (let s in this._servers) { try { let serv = this._servers[s];
     if (typeof serv.stopAsync === 'function') { await serv.stopAsync(); }
     this._servers[s] = undefined; } catch (err) { console.log(...); } }\<close>
  \<open>for ... in\<close> over an array walks the indices upwards. On a slot that already holds
  \<open>undefined\<close> the read of \<open>serv.stopAsync\<close> throws and is caught; when a handle's
  \<open>stopAsync\<close> rejects (the parameter \<open>rejects\<close>) the slot keeps its handle.
\<close>

fun stop_loop :: "(ProtoServer \<Rightarrow> bool) \<Rightarrow> nat \<Rightarrow> ProtoServer option list \<Rightarrow> stop_report" where
  "stop_loop rejects i [] = \<lparr>stop_servers = [], stop_calls = [], stop_logged = []\<rparr>"
| "stop_loop rejects i (None # rest) =
     (let r = stop_loop rejects (Suc i) rest in
      r\<lparr>stop_servers := None # stop_servers r, stop_logged := i # stop_logged r\<rparr>)"
| "stop_loop rejects i (Some serv # rest) =
     (let r = stop_loop rejects (Suc i) rest in
      if rejects serv
      then r\<lparr>stop_servers := Some serv # stop_servers r, stop_calls := serv # stop_calls r,
             stop_logged := i # stop_logged r\<rparr>
      else r\<lparr>stop_servers := None # stop_servers r, stop_calls := serv # stop_calls r\<rparr>)"

definition stopAsync :: "(ProtoServer \<Rightarrow> bool) \<Rightarrow> WebServer \<Rightarrow> WebServer \<times> stop_report" where
  "stopAsync rejects w =
     (let r = stop_loop rejects 0 (servers w) in (w\<lparr>servers := stop_servers r\<rparr>, r))"

subsubsection \<open>Example configurations\<close>

definition uuid_example :: "nat \<Rightarrow> string" where
  "uuid_example n = ''uuid-'' @ replicate (Suc n) (CHR ''a'')"

definition env_all_start :: host_env where
  "env_all_start cls c = Started"

definition new_WebServer :: WebServer where
  "new_WebServer = \<lparr>servers = [], persisted = [], uuid_count = 0\<rparr>"

definition entry_off :: config_entry where
  "entry_off = \<lparr>cfg_uuid = None, cfg_enabled = False, cfg_type = None, cfg_name = None\<rparr>"

definition entry_on :: config_entry where
  "entry_on = \<lparr>cfg_uuid = Some ''uuid-kept'', cfg_enabled = True, cfg_type = Some ''mqtt'', cfg_name = Some ''broker''\<rparr>"

definition web_example :: web_section where
  "web_example = \<lparr>web_servers = [(''http'', entry_off)], web_interfaces = [(''broker'', entry_on)]\<rparr>"

definition web_example_after :: web_section where
  "web_example_after =
     \<lparr>web_servers = [(''http'', entry_off\<lparr>cfg_uuid := Some ''uuid-a''\<rparr>)],
      web_interfaces = [(''broker'', entry_on)]\<rparr>"

definition registry_after :: WebServer where
  "registry_after =
     \<lparr>servers =
        [Some \<lparr>ps_class = HttpServer, ps_name = Some ''http'', ps_type = ''http'',
               ps_uuid = Some ''uuid-a'', ps_isRunning = False\<rparr>,
         Some \<lparr>ps_class = MqttInterfaceServer, ps_name = Some ''broker'', ps_type = ''mqtt'',
               ps_uuid = Some ''uuid-kept'', ps_isRunning = True\<rparr>],
      persisted = [(''web.servers.http'', entry_off\<lparr>cfg_uuid := Some ''uuid-a''\<rparr>)],
      uuid_count = 1\<rparr>"

definition never_rejects :: "ProtoServer \<Rightarrow> bool" where
  "never_rejects serv = False"

definition http_handle :: ProtoServer where
  "http_handle = \<lparr>ps_class = HttpServer, ps_name = Some ''http'', ps_type = ''http'',
               ps_uuid = Some ''uuid-a'', ps_isRunning = True\<rparr>"

definition mdns_handle :: ProtoServer where
  "mdns_handle = \<lparr>ps_class = MdnsServer, ps_name = Some ''mdns'', ps_type = ''mdns'',
               ps_uuid = Some ''uuid-aa'', ps_isRunning = True\<rparr>"

subsection \<open>DiscoveryBridge: the \<open>response\<close> handler of \<open>MdnsServer\<close>\<close>

text \<open>
  A pending query (\<open>{name, type}\<close>) and an answer record of a response packet, with
  the fields that the handler and its log line read.
\<close>

record mdns_query =
  q_name :: string
  q_type :: string

record mdns_answer =
  a_name :: string
  a_data :: string

text \<open>
  \<open>queries\<close> is the private array of pending queries. \<open>emitted\<close> lists the answers
  passed to \<open>mdnsEmitter.emit('mdnsResponse', answer)\<close>, oldest first.
\<close>

record MdnsServer =
  queries :: "mdns_query list"
  emitted :: "mdns_answer list"

text \<open>
  The inner loop, \<open>responses.answers.forEach\<close>, for one pending query:
  \<^verbatim>\<open>if (answer.name === query.name) {
     self.mdnsEmitter.emit('mdnsResponse', answer);
     self.queries = self.queries.filter((value, index, arr) => {
       if (value.name !== query.name) return arr; }); }\<close>
  The callback of \<open>filter\<close> returns the array (truthy) for a query of another name and
  \<open>undefined\<close> (falsy) otherwise, so the queries of another name are the ones kept.
  \<open>emit\<close> runs the listeners at once; when one throws (the parameter \<open>throws\<close>), the
  exception leaves the handler before the filter.
\<close>

fun on_answers ::
  "(mdns_answer \<Rightarrow> bool) \<Rightarrow> mdns_query \<Rightarrow> mdns_answer list \<Rightarrow> MdnsServer
     \<Rightarrow> MdnsServer completion" where
  "on_answers throws query [] m = Returned m"
| "on_answers throws query (answer # rest) m =
     (if a_name answer = q_name query then
        (let m1 = m\<lparr>emitted := emitted m @ [answer]\<rparr> in
         if throws answer then Threw m1
         else on_answers throws query rest
                (m1\<lparr>queries := filter (\<lambda>value. q_name value \<noteq> q_name query) (queries m1)\<rparr>))
      else on_answers throws query rest m)"

text \<open>
  The outer loop, \<open>self.queries.forEach\<close>. It walks the array that \<open>self.queries\<close>
  held when the loop began: \<open>filter\<close> builds a new array and leaves that one alone.
\<close>

fun on_queries ::
  "(mdns_answer \<Rightarrow> bool) \<Rightarrow> mdns_query list \<Rightarrow> mdns_answer list \<Rightarrow> MdnsServer
     \<Rightarrow> MdnsServer completion" where
  "on_queries throws [] answers m = Returned m"
| "on_queries throws (query # rest) answers m =
     (case on_answers throws query answers m of
        Threw m1 \<Rightarrow> Threw m1
      | Returned m1 \<Rightarrow> on_queries throws rest answers m1)"

definition on_response ::
  "(mdns_answer \<Rightarrow> bool) \<Rightarrow> mdns_answer list \<Rightarrow> MdnsServer \<Rightarrow> MdnsServer completion" where
  "on_response throws answers m = on_queries throws (queries m) answers m"

subsubsection \<open>Example queries and answers\<close>

definition no_listener_throws :: "mdns_answer \<Rightarrow> bool" where
  "no_listener_throws answer = False"

definition query_test :: mdns_query where
  "query_test = \<lparr>q_name = ''_test._tcp.local'', q_type = ''A''\<rparr>"

definition query_other :: mdns_query where
  "query_other = \<lparr>q_name = ''_other._tcp.local'', q_type = ''A''\<rparr>"

definition answer_test :: mdns_answer where
  "answer_test = \<lparr>a_name = ''_test._tcp.local'', a_data = ''10.0.0.5''\<rparr>"

definition answer_test2 :: mdns_answer where
  "answer_test2 = \<lparr>a_name = ''_test._tcp.local'', a_data = ''10.0.0.6''\<rparr>"

definition answer_printer :: mdns_answer where
  "answer_printer = \<lparr>a_name = ''_printer._tcp.local'', a_data = ''10.0.0.9''\<rparr>"

subsection \<open>BindingLoader: \<open>loadBindings\<close> and the file watcher\<close>

text \<open>
  What the three calls of \<open>fs\<close> inside \<open>loadBindings\<close> return, in the order they
  are made: \<open>fs.existsSync\<close>, \<open>fs.readFileSync\<close> (\<open>None\<close> when it throws) and the
  \<open>mtime.valueOf()\<close> of \<open>fs.statSync\<close> (\<open>None\<close> when it throws). They are
  separate values: the file can change or disappear between the calls.
\<close>

record fs_calls =
  fs_exists :: bool
  fs_read :: "string option"
  fs_mtime :: "int option"

text \<open>
  The fields of \<open>HttpInterfaceServer\<close> that the loader touches
  (\<open>InfluxInterfaceServer\<close> and \<open>MqttInterfaceServer\<close> repeat them and
  \<open>loadBindings\<close> word for word): \<open>isRunning\<close>, \<open>_isLoading\<close>,
  \<open>_fileTime.valueOf()\<close> (initially \<open>new Date(0)\<close>) and \<open>bindings\<close>, undefined
  until a load assigns it. \<open>load_calls\<close> is not a field of the class: it counts the
  calls of \<open>loadBindings\<close>.
\<close>

record 'b InterfaceServer =
  isRunning :: bool
  isLoading :: bool
  fileTime :: int
  bindings :: "'b option"
  load_calls :: nat


text \<open>
  The \<open>catch\<close> block of \<open>loadBindings\<close>: \<open>this.isRunning = false;
  this._isLoading = false;\<close>, after which the function returns \<open>false\<close>.
\<close>

definition catch_load :: "'b InterfaceServer \<Rightarrow> 'b InterfaceServer \<times> bool" where
  "catch_load s = (s\<lparr>isRunning := False, isLoading := False\<rparr>, False)"

text \<open>
  \<open>loadBindings(cfg)\<close>, with its result. The parameter \<open>decode\<close> stands for the
  statements of the \<open>try\<close> block between the read and the assignment to
  \<open>this.bindings\<close> (\<open>JSON.parse\<close> of the text, \<open>extend\<close> with the options of
  \<open>cfg.context\<close>, and \<open>Object.assign\<close> onto a new bindings object of the class,
  which is defined in another module): \<open>None\<close> when one of them throws. When the file
  does not exist nothing but \<open>_isLoading\<close> is touched. The assignment to
  \<open>this.bindings\<close> comes before \<open>fs.statSync\<close>: when the stat throws, the
  \<open>catch\<close> block runs with the new binding already in place.
\<close>

definition loadBindings ::
  "('c \<Rightarrow> string \<Rightarrow> 'b option) \<Rightarrow> 'c \<Rightarrow> fs_calls \<Rightarrow> 'b InterfaceServer
     \<Rightarrow> 'b InterfaceServer \<times> bool" where
  "loadBindings decode cfg disk s =
     (let s1 = s\<lparr>isLoading := True, load_calls := Suc (load_calls s)\<rparr> in
      if \<not> fs_exists disk then (s1, False)
      else
        (case fs_read disk of
           None \<Rightarrow> catch_load s1
         | Some content \<Rightarrow>
             (case decode cfg content of
                None \<Rightarrow> catch_load s1
              | Some b \<Rightarrow>
                  (let s2 = s1\<lparr>bindings := Some b, isRunning := True, isLoading := False\<rparr> in
                   case fs_mtime disk of
                     None \<Rightarrow> catch_load s2
                   | Some mtime \<Rightarrow> (s2\<lparr>fileTime := mtime\<rparr>, True)))))"


text \<open>
  The arguments of the callback of \<open>fs.watch\<close>.
\<close>

record watch_event =
  w_event :: string
  w_fileName :: "string option"

definition truthy :: "string option \<Rightarrow> bool" where
  "truthy x = (case x of None \<Rightarrow> False | Some s \<Rightarrow> s \<noteq> [])"

text \<open>
  The callback that \<open>initBindings\<close> hands to \<open>fs.watch\<close>:
  \<^verbatim>\<open>if (fileName && event === 'change') {
     if (self._isLoading) return;
     const stats = fs.statSync(self.bindingsPath);
     if (stats.mtime.valueOf() === self._fileTime.valueOf()) return;
     self.loadBindings(cfg); ... }\<close>
  \<open>stats\<close> is what the callback's own \<open>fs.statSync\<close> returns (\<open>None\<close> when it
  throws); \<open>disk\<close> is what the calls inside \<open>loadBindings\<close> return.
\<close>

definition watch_callback ::
  "('c \<Rightarrow> string \<Rightarrow> 'b option) \<Rightarrow> 'c \<Rightarrow> watch_event \<Rightarrow> int option \<Rightarrow> fs_calls
     \<Rightarrow> 'b InterfaceServer \<Rightarrow> 'b InterfaceServer completion" where
  "watch_callback decode cfg ev stats disk s =
     (if truthy (w_fileName ev) \<and> w_event ev = ''change'' then
        (if isLoading s then Returned s
         else
           (case stats of
              None \<Rightarrow> Threw s
            | Some mtime \<Rightarrow>
                if mtime = fileTime s then Returned s
                else Returned (fst (loadBindings decode cfg disk s))))
      else Returned s)"

subsubsection \<open>Example files\<close>

definition decode_example :: "unit \<Rightarrow> string \<Rightarrow> string option" where
  "decode_example cfg content =
     (if content \<noteq> [] \<and> hd content = CHR ''{'' \<and> last content = CHR ''}''
      then Some content else None)"



definition file_edited :: fs_calls where
  "file_edited = \<lparr>fs_exists = True, fs_read = Some ''{}'', fs_mtime = Some 3000\<rparr>"


definition file_vanishing :: fs_calls where
  "file_vanishing = \<lparr>fs_exists = True, fs_read = Some ''{new}'', fs_mtime = None\<rparr>"

definition change_event :: watch_event where
  "change_event = \<lparr>w_event = ''change'', w_fileName = Some ''rules.json''\<rparr>"

definition bridge_loaded :: "string InterfaceServer" where
  "bridge_loaded = \<lparr>isRunning = True, isLoading = False, fileTime = 1000, bindings = Some ''{}'',
      load_calls = 1\<rparr>"

definition bridge_reloaded :: "string InterfaceServer" where
  "bridge_reloaded = \<lparr>isRunning = True, isLoading = False, fileTime = 3000, bindings = Some ''{}'',
      load_calls = 2\<rparr>"

subsection \<open>HandshakeCoordinator: \<open>REMInterfaceServer.initConnection\<close>\<close>

text \<open>
  What \<open>initConnection\<close> reads of an \<open>InterfaceServerResponse\<close>: \<open>status.code\<close>
  (\<open>-1\<close> until a response arrives), \<open>error\<close> (\<open>None\<close> when it is undefined or
  \<open>null\<close>, else the text that \<open>error.message\<close> renders to), and \<open>obj\<close> (\<open>None\<close>
  when undefined, else its \<open>id\<close>, itself possibly undefined).
\<close>

record InterfaceServerResponse =
  status_code :: int
  resp_error :: "string option"
  resp_obj :: "string option option"

text \<open>
  An awaited \<open>putApiService\<close> yields a response or rejects.
\<close>

datatype request_outcome = Responded InterfaceServerResponse | RequestRejected

text \<open>
  The three errors the promise is rejected with, by the prefix of their message:
  \<open>initConnection: <message>\<close>, \<open>initConnection setTimeout: <message>\<close> and
  \<open>initConnection: No socket response received. ...\<close>.
\<close>

datatype reject_reason = InitConnection string | InitConnectionSetTimeout string | NoSocketResponse

datatype settlement = Pending | Resolved | Rejected reject_reason

text \<open>
  What a run does to its surroundings: the requests it issues (by url) and the listeners
  it registers through \<open>HttpServer.addListenerOnce\<close> (by event name).
\<close>

datatype effect = Put string | AddListenerOnce string

text \<open>
  One run of \<open>initConnection\<close>: the promise it returned, \<open>this.remoteConnectionId\<close>,
  the variable \<open>result\<close>, and what the run is still waiting for: the registration
  request, the \<open>setTimeout\<close> of 3000 ms, the timer \<open>_tmr\<close> of 5000 ms, the
  verify-emit request, and the one-shot listeners of the run, by event name: those
  registered on the socket server object (\<open>server_once\<close>) and those registered on the
  connected sockets (\<open>socket_once\<close>). Node runs the callbacks one at a time, so a run
  is the sequence of its callbacks.
\<close>

record handshake =
  promise :: settlement
  remoteConnectionId :: "string option"
  result :: "InterfaceServerResponse option"
  register_pending :: bool
  delay_pending :: bool
  timer_armed :: bool
  server_once :: "string list"
  socket_once :: "string list"
  verify_pending :: bool
  effects :: "effect list"

text \<open>
  \<open>resolve()\<close> and \<open>reject(err)\<close> settle a pending promise and do nothing to a
  settled one.
\<close>

definition resolve :: "handshake \<Rightarrow> handshake" where
  "resolve h = (if promise h = Pending then h\<lparr>promise := Resolved\<rparr> else h)"

definition reject :: "reject_reason \<Rightarrow> handshake \<Rightarrow> handshake" where
  "reject why h = (if promise h = Pending then h\<lparr>promise := Rejected why\<rparr> else h)"

text \<open>
  The call: the promise is pending and the registration request
  (\<open>putApiService('/config/checkconnection/', data, 5000)\<close>) is under way.
\<close>

definition initConnection :: handshake where
  "initConnection =
     \<lparr>promise = Pending, remoteConnectionId = None, result = None, register_pending = True,
      delay_pending = False, timer_armed = False, server_once = [], socket_once = [],
      verify_pending = False, effects = [Put ''/config/checkconnection/'']\<rparr>"

text \<open>
  The tests on the status: \<open>code > 200 || code < 0\<close> after the registration,
  \<open>code > 200 || code === -1\<close> after the verify-emit request.
\<close>

definition not_ok_register :: "int \<Rightarrow> bool" where
  "not_ok_register code \<longleftrightarrow> code > 200 \<or> code < 0"

definition not_ok_verify :: "int \<Rightarrow> bool" where
  "not_ok_verify code \<longleftrightarrow> code > 200 \<or> code = - 1"

text \<open>
  The registration request comes back. On a bad status the executor returns
  \<open>reject(new Error(`initConnection: ${result.error.message}`))\<close>; on a good one it
  stores \<open>result.obj.id\<close> and schedules the second phase. The executor is an
  \<open>async\<close> function: when the request rejects, or \<open>result.error\<close> or
  \<open>result.obj\<close> is undefined, the exception ends the executor without settling the
  promise.
\<close>

definition register_returned :: "request_outcome \<Rightarrow> handshake \<Rightarrow> handshake" where
  "register_returned r h =
     (if \<not> register_pending h then h
      else
        (let h1 = h\<lparr>register_pending := False\<rparr> in
         case r of
           RequestRejected \<Rightarrow> h1
         | Responded res \<Rightarrow>
             (let h2 = h1\<lparr>result := Some res\<rparr> in
              if not_ok_register (status_code res) then
                (case resp_error res of
                   None \<Rightarrow> h2
                 | Some msg \<Rightarrow> reject (InitConnection msg) h2)
              else
                (case resp_obj res of
                   None \<Rightarrow> h2
                 | Some cid \<Rightarrow> h2\<lparr>remoteConnectionId := cid, delay_pending := True\<rparr>))))"

text \<open>
  The \<open>catch\<close> of the second phase:
  \<open>reject(new Error(`initConnection setTimeout: ${result.error.message}`))\<close>, which
  itself throws when \<open>result.error\<close> is undefined.
\<close>

definition catch_setTimeout :: "handshake \<Rightarrow> handshake" where
  "catch_setTimeout h =
     (case result h of
        None \<Rightarrow> h
      | Some res \<Rightarrow>
          (case resp_error res of
             None \<Rightarrow> h
           | Some msg \<Rightarrow> reject (InitConnectionSetTimeout msg) h))"

text \<open>
  \<open>HttpServer.addListenerOnce\<close>:
  \<^verbatim>\<open>// for (let i = 0; i < this._sockets.length; i++) {
  //     this._sockets[i].once(event, f);
  // }
  this.sockServer.once(event, f);\<close>
  The listener goes to the socket server object; the registration on the sockets is
  commented out, so nothing ever enters \<open>socket_once\<close>.
\<close>

definition addListenerOnce :: "string \<Rightarrow> handshake \<Rightarrow> handshake" where
  "addListenerOnce ev h =
     h\<lparr>server_once := server_once h @ [ev], effects := effects h @ [AddListenerOnce ev]\<rparr>"

text \<open>
  The 3000 ms have passed: \<open>_tmr\<close> is armed, the one-shot listener for
  \<open>/checkemit\<close> is registered through \<open>addListenerOnce\<close>, and the verify-emit
  request is sent. \<open>http_ready\<close> says whether \<open>webApp.findServer('http')\<close> has a handle with a
  socket server; without one \<open>addListenerOnce\<close> throws into the \<open>catch\<close>.
\<close>

definition settle_elapsed :: "bool \<Rightarrow> handshake \<Rightarrow> handshake" where
  "settle_elapsed http_ready h =
     (if \<not> delay_pending h then h
      else
        (let h1 = h\<lparr>delay_pending := False, timer_armed := True\<rparr> in
         if \<not> http_ready then catch_setTimeout h1
         else
           (let h2 = addListenerOnce ''/checkemit'' h1 in
            h2\<lparr>verify_pending := True, effects := effects h2 @ [Put ''/config/checkemit'']\<rparr>)))"

text \<open>
  \<open>_tmr\<close> fires unless \<open>clearTimeout\<close> came first.
\<close>

definition timer_fired :: "handshake \<Rightarrow> handshake" where
  "timer_fired h =
     (if timer_armed h then reject NoSocketResponse (h\<lparr>timer_armed := False\<rparr>) else h)"

text \<open>
  The callback handed to \<open>addListenerOnce\<close>:
  \<open>clearTimeout(_tmr); ... return resolve();\<close>.
\<close>

definition checkemit_listener :: "handshake \<Rightarrow> handshake" where
  "checkemit_listener h = resolve (h\<lparr>timer_armed := False\<rparr>)"

text \<open>
  An event emitted on the socket server object runs the one-shot listener registered
  there for its name, and removes it.
\<close>

definition server_event :: "string \<Rightarrow> handshake \<Rightarrow> handshake" where
  "server_event ev h =
     (if ev \<in> set (server_once h)
      then checkemit_listener (h\<lparr>server_once := remove1 ev (server_once h)\<rparr>) else h)"

text \<open>
  An event that a connected client emits arrives on that client's socket and runs the
  one-shot listeners registered on the sockets. This is how the file receives every
  client event (\<open>sock.on(...)\<close> in \<open>socketHandler\<close>); on the server object it
  listens for \<open>connection\<close> only.
\<close>

definition socket_event :: "string \<Rightarrow> handshake \<Rightarrow> handshake" where
  "socket_event ev h =
     (if ev \<in> set (socket_once h)
      then checkemit_listener (h\<lparr>socket_once := remove1 ev (socket_once h)\<rparr>) else h)"

text \<open>
  The verify-emit request comes back: \<open>reject\<close> on a bad status, else
  \<open>clearTimeout(_tmr); return resolve();\<close>.
\<close>

definition verify_returned :: "request_outcome \<Rightarrow> handshake \<Rightarrow> handshake" where
  "verify_returned r h =
     (if \<not> verify_pending h then h
      else
        (let h1 = h\<lparr>verify_pending := False\<rparr> in
         case r of
           RequestRejected \<Rightarrow> catch_setTimeout h1
         | Responded res \<Rightarrow>
             (let h2 = h1\<lparr>result := Some res\<rparr> in
              if not_ok_verify (status_code res) then
                (case resp_error res of
                   None \<Rightarrow> catch_setTimeout h2
                 | Some msg \<Rightarrow> reject (InitConnection msg) h2)
              else resolve (h2\<lparr>timer_armed := False\<rparr>))))"

datatype event = RegisterReturned request_outcome | SettleElapsed bool | TimerFired
  | ServerEvent string | SocketEvent string | VerifyReturned request_outcome

fun step :: "event \<Rightarrow> handshake \<Rightarrow> handshake" where
  "step (RegisterReturned r) h = register_returned r h"
| "step (SettleElapsed http_ready) h = settle_elapsed http_ready h"
| "step TimerFired h = timer_fired h"
| "step (ServerEvent ev) h = server_event ev h"
| "step (SocketEvent ev) h = socket_event ev h"
| "step (VerifyReturned r) h = verify_returned r h"

fun run :: "event list \<Rightarrow> handshake \<Rightarrow> handshake" where
  "run [] h = h"
| "run (e # es) h = run es (step e h)"

text \<open>
  A run that waits for nothing any more, and a run in its second phase that has settled
  as resolved or still has its listener on the server object.
\<close>

definition idle :: "handshake \<Rightarrow> bool" where
  "idle h \<longleftrightarrow> \<not> register_pending h \<and> \<not> delay_pending h \<and> \<not> timer_armed h
     \<and> server_once h = [] \<and> socket_once h = [] \<and> \<not> verify_pending h"

definition awaiting_ack :: "handshake \<Rightarrow> bool" where
  "awaiting_ack h \<longleftrightarrow> \<not> register_pending h \<and> \<not> delay_pending h \<and> socket_once h = []
     \<and> (promise h = Resolved \<or> promise h = Pending \<and> ''/checkemit'' \<in> set (server_once h))"

text \<open>
  The callbacks that may come before the listener runs and leave the promise open or
  resolved: not the timer, and not a verify-emit request that failed.
\<close>

definition before_ack_ok :: "event \<Rightarrow> bool" where
  "before_ack_ok e =
     (case e of
        TimerFired \<Rightarrow> False
      | VerifyReturned r \<Rightarrow>
          (case r of
             RequestRejected \<Rightarrow> False
           | Responded res \<Rightarrow> \<not> not_ok_verify (status_code res))
      | _ \<Rightarrow> True)"

subsection \<open>The \<open>REMInterfaceServer\<close> handle and \<open>isConnected\<close>\<close>

datatype js_error = TypeError

text \<open>
  The fields of the handle: \<open>uuid\<close>, \<open>isRunning\<close>, \<open>sockClient\<close> (undefined, or
  the socket.io client with its \<open>connected\<close> flag) and \<open>remoteConnectionId\<close>.
\<close>

record REMInterfaceServer =
  rem_uuid :: "string option"
  rem_isRunning :: bool
  sockClient :: "bool option"
  rem_connectionId :: "string option"

definition new_REMInterfaceServer :: REMInterfaceServer where
  "new_REMInterfaceServer =
     \<lparr>rem_uuid = None, rem_isRunning = False, sockClient = None, rem_connectionId = None\<rparr>"

text \<open>
  \<open>get isConnected() { return this.sockClient !== 'undefined' && this.sockClient.connected; }\<close>
  The first operand compares with the string \<open>'undefined'\<close> and is true for every
  value \<open>sockClient\<close> takes, so the getter reads \<open>connected\<close>, and throws on an
  undefined \<open>sockClient\<close>.
\<close>

definition isConnected :: "REMInterfaceServer \<Rightarrow> js_error + bool" where
  "isConnected s = (case sockClient s of None \<Rightarrow> Inl TypeError | Some connected \<Rightarrow> Inr connected)"

text \<open>
  The getter of \<open>ProtoServer\<close>, which \<open>HttpInterfaceServer\<close> and
  \<open>InfluxInterfaceServer\<close> inherit.
\<close>

definition ProtoServer_isConnected :: "ProtoServer \<Rightarrow> bool" where
  "ProtoServer_isConnected h = ps_isRunning h"

text \<open>
  \<open>init(cfg)\<close>: under \<open>cfg.enabled\<close>, \<open>initSockets\<close> creates the client (not yet
  connected) and sets \<open>isRunning\<close>, unless it throws before (\<open>socket_ok\<close>), and the
  handshake is scheduled.
\<close>

definition rem_init :: "config_entry \<Rightarrow> bool \<Rightarrow> REMInterfaceServer \<Rightarrow> REMInterfaceServer" where
  "rem_init cfg socket_ok s =
     (let s1 = s\<lparr>rem_uuid := cfg_uuid cfg\<rparr> in
      if cfg_enabled cfg \<and> socket_ok then s1\<lparr>sockClient := Some False, rem_isRunning := True\<rparr>
      else s1)"

text \<open>
  The socket.io client connects or disconnects.
\<close>

definition socket_status :: "bool \<Rightarrow> REMInterfaceServer \<Rightarrow> REMInterfaceServer" where
  "socket_status connected s =
     (case sockClient s of None \<Rightarrow> s | Some old \<Rightarrow> s\<lparr>sockClient := Some connected\<rparr>)"

text \<open>
  The one statement of a handshake run that writes to the handle:
  \<open>this.remoteConnectionId = result.obj.id\<close>.
\<close>

definition store_connection_id :: "string option \<Rightarrow> REMInterfaceServer \<Rightarrow> REMInterfaceServer" where
  "store_connection_id cid s = s\<lparr>rem_connectionId := cid\<rparr>"

inductive rem_reachable :: "REMInterfaceServer \<Rightarrow> bool" where
  reach_new: "rem_reachable new_REMInterfaceServer"
| reach_init: "rem_reachable s \<Longrightarrow> rem_reachable (rem_init cfg socket_ok s)"
| reach_socket: "rem_reachable s \<Longrightarrow> rem_reachable (socket_status connected s)"
| reach_store: "rem_reachable s \<Longrightarrow> rem_reachable (store_connection_id cid s)"

subsubsection \<open>Example responses\<close>

definition response_ok :: InterfaceServerResponse where
  "response_ok = \<lparr>status_code = 200, resp_error = None, resp_obj = Some (Some ''abc'')\<rparr>"

definition response_500 :: InterfaceServerResponse where
  "response_500 = \<lparr>status_code = 500, resp_error = Some ''Internal error'', resp_obj = None\<rparr>"

definition response_500_null :: InterfaceServerResponse where
  "response_500_null = \<lparr>status_code = 500, resp_error = None, resp_obj = None\<rparr>"

definition response_timeout :: InterfaceServerResponse where
  "response_timeout = \<lparr>status_code = - 1, resp_error = Some ''Request timeout'', resp_obj = None\<rparr>"

definition http_bridge :: ProtoServer where
  "http_bridge = \<lparr>ps_class = HttpInterfaceServer, ps_name = Some ''rules'', ps_type = ''http'',
      ps_uuid = Some ''uuid-a'', ps_isRunning = True\<rparr>"

section \<open>Properties\<close>

subsection \<open>AddressResolver\<close>

lemma take_length_is_prefix: "take (length pat) s = pat \<longleftrightarrow> prefix pat s"
  by (metis append_eq_conv_conj prefix_def)

lemma indexOf_at_negative: "indexOf_at i s pat < 0 \<longleftrightarrow> \<not> sublist pat s"
proof (induction i s pat rule: indexOf_at.induct)
  case (1 i pat)
  then show ?case by simp
next
  case (2 i c cs pat)
  show ?case
  proof (cases "prefix pat (c # cs)")
    case True
    then show ?thesis
      by (simp add: take_length_is_prefix sublist_Cons_right del: take_Suc_Cons)
  next
    case False
    with 2 show ?thesis
      by (simp add: take_length_is_prefix sublist_Cons_right del: take_Suc_Cons)
  qed
qed

lemma indexOf_negative: "indexOf s pat < 0 \<longleftrightarrow> \<not> sublist pat s"
  by (simp add: indexOf_def indexOf_at_negative)

lemma scan_nic_find: "scan_nic nic = find scope_local nic"
  by (induction nic) (simp_all add: scope_local_def indexOf_negative web_family_def)

lemma getInterface_find: "getInterface tbl = find scope_local (concat (map snd tbl))"
proof (induction tbl)
  case Nil
  then show ?case by simp
next
  case (Cons p tbl)
  obtain name nic where p: "p = (name, nic)" by (cases p)
  have app: "find scope_local (nic @ ys) =
      (case find scope_local nic of Some a \<Rightarrow> Some a | None \<Rightarrow> find scope_local ys)" for ys
    by (induction nic) simp_all
  show ?case
    using Cons by (simp add: p scan_nic_find app split: option.splits)
qed

lemma find_first_split:
  "xs = pre @ a # post \<Longrightarrow> \<forall>b \<in> set pre. \<not> P b \<Longrightarrow> P a \<Longrightarrow> find P xs = Some a"
  by (induction pre arbitrary: xs) auto

text \<open>
  Claim C10. When no enumerated entry is non-internal, IPv4 and with a hardware address
  free of \<open>00:00:00:\<close>, \<open>ip\<close> is \<open>0.0.0.0\<close> and \<open>mac\<close> is \<open>00:00:00:00\<close>;
  otherwise both come from the first such entry in enumeration order (every entry
  enumerated before it fails the test).
\<close>

theorem ip_mac_first_scope_local:
  "((\<forall>a \<in> set (concat (map snd tbl)). \<not> scope_local a) \<longrightarrow>
      ip tbl = ''0.0.0.0'' \<and> mac tbl = ''00:00:00:00'')
   \<and> (\<forall>pre a post. concat (map snd tbl) = pre @ a # post
          \<and> (\<forall>b \<in> set pre. \<not> scope_local b) \<and> scope_local a \<longrightarrow>
        ip tbl = nic_address a \<and> mac tbl = nic_mac a)"
proof (intro conjI impI allI)
  assume none: "\<forall>a \<in> set (concat (map snd tbl)). \<not> scope_local a"
  then have "find scope_local (concat (map snd tbl)) = None"
    unfolding find_None_iff by blast
  then have g: "getInterface tbl = None"
    by (simp add: getInterface_find)
  show "ip tbl = ''0.0.0.0''" using g by (simp add: ip_def)
  show "mac tbl = ''00:00:00:00''" using g by (simp add: mac_def)
next
  fix pre a post
  assume h: "concat (map snd tbl) = pre @ a # post
          \<and> (\<forall>b \<in> set pre. \<not> scope_local b) \<and> scope_local a"
  then have "find scope_local (concat (map snd tbl)) = Some a"
    using find_first_split [of "concat (map snd tbl)" pre a post scope_local] by blast
  then have g: "getInterface tbl = Some a"
    by (simp add: getInterface_find)
  show "ip tbl = nic_address a" using g by (simp add: ip_def)
  show "mac tbl = nic_mac a" using g by (simp add: mac_def)
qed

lemma scope_local_examples:
  "\<not> scope_local nic_lo" "\<not> scope_local nic_eth6" "scope_local nic_eth4"
  by (simp_all add: scope_local_def nic_lo_def nic_eth6_def nic_eth4_def
      indexOf_negative [symmetric] indexOf_def)

theorem ip_mac_first_scope_local_witness:
  "concat (map snd host_table) = [nic_lo, nic_eth6] @ nic_eth4 # []
   \<and> \<not> scope_local nic_lo \<and> \<not> scope_local nic_eth6 \<and> scope_local nic_eth4
   \<and> ip host_table = ''192.168.1.20'' \<and> mac host_table = ''b8:27:eb:12:34:56''
   \<and> ip [(''lo'', [nic_lo])] = ''0.0.0.0'' \<and> mac [(''lo'', [nic_lo])] = ''00:00:00:00''"
proof -
  have c: "concat (map snd host_table) = [nic_lo, nic_eth6] @ nic_eth4 # []"
    by (simp add: host_table_def)
  have pre: "\<forall>b \<in> set [nic_lo, nic_eth6]. \<not> scope_local b"
    by (simp add: scope_local_examples)
  from ip_mac_first_scope_local [of host_table] c pre scope_local_examples(3)
  have "ip host_table = nic_address nic_eth4 \<and> mac host_table = nic_mac nic_eth4"
    by blast
  moreover have "\<forall>a \<in> set (concat (map snd [(''lo'', [nic_lo])])). \<not> scope_local a"
    by (simp add: scope_local_examples)
  with ip_mac_first_scope_local [of "[(''lo'', [nic_lo])]"]
  have "ip [(''lo'', [nic_lo])] = ''0.0.0.0'' \<and> mac [(''lo'', [nic_lo])] = ''00:00:00:00''"
    by blast
  ultimately show ?thesis
    using c scope_local_examples by (simp add: nic_eth4_def)
qed

subsection \<open>ServerRegistry: id assignment and disabled entries\<close>

lemma assign_uuid_some: "cfg_uuid c = Some u \<Longrightarrow> assign_uuid gen p c w = (c, w)"
  by (simp add: assign_uuid_def)

lemma assign_uuid_none:
  "cfg_uuid c = None \<Longrightarrow> assign_uuid gen p c w =
     (c\<lparr>cfg_uuid := Some (gen (uuid_count w))\<rparr>,
      w\<lparr>persisted := persisted w @ [(p, c\<lparr>cfg_uuid := Some (gen (uuid_count w))\<rparr>)],
        uuid_count := Suc (uuid_count w)\<rparr>)"
  by (simp add: assign_uuid_def Let_def)

lemma assign_uuid_enabled: "cfg_enabled (fst (assign_uuid gen p c w)) = cfg_enabled c"
  by (simp add: assign_uuid_def Let_def)

lemma assign_uuid_servers: "servers (snd (assign_uuid gen p c w)) = servers w"
  by (simp add: assign_uuid_def Let_def)

lemma assign_uuid_has: "cfg_uuid (fst (assign_uuid gen p c w)) \<noteq> None"
  by (simp add: assign_uuid_def Let_def)

lemma server_init_uuid: "ps_uuid (fst (server_init env c h)) = cfg_uuid c"
  by (simp add: server_init_def Let_def split: start_outcome.splits)

lemma server_init_disabled:
  "\<not> cfg_enabled c \<Longrightarrow> server_init env c h = (h\<lparr>ps_uuid := cfg_uuid c\<rparr>, False)"
  by (simp add: server_init_def)

lemma initInterfaces_entry_disabled:
  assumes "\<not> cfg_enabled c"
  shows "initInterfaces_entry gen env (s, c) w =
       Returned ((s, fst (assign_uuid gen (interface_path s) c w)),
                 snd (assign_uuid gen (interface_path s) c w))"
proof -
  obtain c' w1 where a: "assign_uuid gen (interface_path s) c w = (c', w1)"
    by (cases "assign_uuid gen (interface_path s) c w")
  have "cfg_enabled c' = cfg_enabled c"
    using assign_uuid_enabled [of gen "interface_path s" c w] a by simp
  with assms show ?thesis
    by (simp add: initInterfaces_entry_def a)
qed

lemma init_entry_disabled:
  assumes "\<not> cfg_enabled c"
  shows "init_entry gen env (s, c) w =
       (case assign_uuid gen (server_path s) c w of (c', w1) \<Rightarrow>
          Returned ((s, c'),
            w1\<lparr>servers := servers w @
              (case server_for_key s of None \<Rightarrow> []
               | Some srv \<Rightarrow> [Some (srv\<lparr>ps_uuid := cfg_uuid c'\<rparr>)])\<rparr>))"
proof -
  obtain c' w1 where a: "assign_uuid gen (server_path s) c w = (c', w1)"
    by (cases "assign_uuid gen (server_path s) c w")
  have off: "\<not> cfg_enabled c'"
    using assign_uuid_enabled [of gen "server_path s" c w] a assms by simp
  have sv: "servers w1 = servers w"
    using assign_uuid_servers [of gen "server_path s" c w] a by simp
  show ?thesis
  proof (cases "server_for_key s")
    case None
    then show ?thesis
      using sv by (simp add: init_entry_def a)
  next
    case (Some srv)
    then show ?thesis
      using sv off by (simp add: init_entry_def a server_init_disabled)
  qed
qed

lemma initInterfaces_all_disabled:
  "\<forall>e \<in> set ifs. \<not> cfg_enabled (snd e) \<Longrightarrow>
     \<exists>ifs' w'. initInterfaces gen env ifs w = Returned (ifs', w') \<and> servers w' = servers w
        \<and> length (persisted w') = length (persisted w) + length (filter (\<lambda>e. cfg_uuid (snd e) = None) ifs)"
proof (induction ifs arbitrary: w)
  case Nil
  then show ?case by (simp add: initInterfaces_def)
next
  case (Cons e ifs)
  obtain s c where e: "e = (s, c)" by (cases e)
  let ?a = "assign_uuid gen (interface_path s) c w"
  from Cons.prems e have off: "\<not> cfg_enabled c" by simp
  have step: "initInterfaces_entry gen env e w = Returned ((s, fst ?a), snd ?a)"
    using initInterfaces_entry_disabled [OF off] e by simp
  from Cons.prems have "\<forall>e \<in> set ifs. \<not> cfg_enabled (snd e)" by simp
  from Cons.IH [OF this, of "snd ?a"]
  obtain ifs' w' where r: "initInterfaces gen env ifs (snd ?a) = Returned (ifs', w')"
      "servers w' = servers (snd ?a)"
      "length (persisted w') = length (persisted (snd ?a))
         + length (filter (\<lambda>e. cfg_uuid (snd e) = None) ifs)"
    by blast
  have len: "length (persisted (snd ?a)) = length (persisted w) + (if cfg_uuid c = None then 1 else 0)"
    by (simp add: assign_uuid_def Let_def)
  have "initInterfaces gen env (e # ifs) w = Returned ((s, fst ?a) # ifs', w')"
    using step r(1) by (simp add: initInterfaces_def)
  then show ?case
    using r(2,3) len assign_uuid_servers [of gen "interface_path s" c w] e by simp
qed

text \<open>
  Claim C1 as stated fails on \<open>WebServer.init\<close>: a disabled \<open>http\<close> entry under
  \<open>cfg.servers\<close> still gets a handle in the registry, initialised with the id and not
  running.
\<close>

theorem init_registers_disabled_server:
  "init uuid_example env_all_start
      \<lparr>web_servers = [(''http'', entry_off)], web_interfaces = []\<rparr> new_WebServer
   = Returned
      (\<lparr>web_servers = [(''http'', entry_off\<lparr>cfg_uuid := Some ''uuid-a''\<rparr>)], web_interfaces = []\<rparr>,
       \<lparr>servers = [Some \<lparr>ps_class = HttpServer, ps_name = Some ''http'', ps_type = ''http'',
                      ps_uuid = Some ''uuid-a'', ps_isRunning = False\<rparr>],
        persisted = [(''web.servers.http'', entry_off\<lparr>cfg_uuid := Some ''uuid-a''\<rparr>)],
        uuid_count = 1\<rparr>)"
  by (simp add: init_def init_entry_def initInterfaces_def assign_uuid_def server_for_key_def
      server_init_def new_ProtoServer_def uuid_example_def new_WebServer_def entry_off_def
      server_path_def Let_def)

text \<open>
  Claim C1, amended. A disabled entry of \<open>initInterfaces\<close> gets no handle: the body
  returns with nothing changed when the entry has an id, and otherwise with the id
  assigned, persisted once under \<open>web.interfaces.<key>\<close> and the generator advanced by
  one; a list of disabled entries leaves the registry's handles as they were and persists
  one entry per missing id. A disabled entry of \<open>cfg.servers\<close> gets the same id
  assignment (under \<open>web.servers.<key>\<close>), and for a known key a handle is appended all
  the same, carrying the id and \<open>isRunning = false\<close>.
\<close>

theorem disabled_entry_effects:
  "(\<not> cfg_enabled c \<and> cfg_uuid c = Some u \<longrightarrow>
      initInterfaces_entry gen env (s, c) w = Returned ((s, c), w)
      \<and> init_entry gen env (s, c) w =
          Returned ((s, c), w\<lparr>servers := servers w @
            (case server_for_key s of None \<Rightarrow> []
             | Some srv \<Rightarrow> [Some (srv\<lparr>ps_uuid := Some u\<rparr>)])\<rparr>))
   \<and> (\<not> cfg_enabled c \<and> cfg_uuid c = None \<longrightarrow>
      initInterfaces_entry gen env (s, c) w =
        Returned ((s, c\<lparr>cfg_uuid := Some (gen (uuid_count w))\<rparr>),
          w\<lparr>persisted := persisted w
                @ [(interface_path s, c\<lparr>cfg_uuid := Some (gen (uuid_count w))\<rparr>)],
            uuid_count := Suc (uuid_count w)\<rparr>)
      \<and> init_entry gen env (s, c) w =
          Returned ((s, c\<lparr>cfg_uuid := Some (gen (uuid_count w))\<rparr>),
            w\<lparr>persisted := persisted w
                  @ [(server_path s, c\<lparr>cfg_uuid := Some (gen (uuid_count w))\<rparr>)],
              uuid_count := Suc (uuid_count w),
              servers := servers w @
                (case server_for_key s of None \<Rightarrow> []
                 | Some srv \<Rightarrow> [Some (srv\<lparr>ps_uuid := Some (gen (uuid_count w))\<rparr>)])\<rparr>))
   \<and> ((\<forall>e \<in> set ifs. \<not> cfg_enabled (snd e)) \<longrightarrow>
      (\<exists>ifs' w'. initInterfaces gen env ifs w = Returned (ifs', w') \<and> servers w' = servers w
        \<and> length (persisted w') = length (persisted w)
             + length (filter (\<lambda>e. cfg_uuid (snd e) = None) ifs)))"
proof (intro conjI impI)
  assume h: "\<not> cfg_enabled c \<and> cfg_uuid c = Some u"
  then show "initInterfaces_entry gen env (s, c) w = Returned ((s, c), w)"
    by (simp add: initInterfaces_entry_disabled assign_uuid_some)
  from h show "init_entry gen env (s, c) w =
          Returned ((s, c), w\<lparr>servers := servers w @
            (case server_for_key s of None \<Rightarrow> []
             | Some srv \<Rightarrow> [Some (srv\<lparr>ps_uuid := Some u\<rparr>)])\<rparr>)"
    by (simp add: init_entry_disabled assign_uuid_some split: option.splits)
next
  assume h: "\<not> cfg_enabled c \<and> cfg_uuid c = None"
  then show "initInterfaces_entry gen env (s, c) w =
        Returned ((s, c\<lparr>cfg_uuid := Some (gen (uuid_count w))\<rparr>),
          w\<lparr>persisted := persisted w
                @ [(interface_path s, c\<lparr>cfg_uuid := Some (gen (uuid_count w))\<rparr>)],
            uuid_count := Suc (uuid_count w)\<rparr>)"
    by (simp add: initInterfaces_entry_disabled assign_uuid_none)
  from h show "init_entry gen env (s, c) w =
          Returned ((s, c\<lparr>cfg_uuid := Some (gen (uuid_count w))\<rparr>),
            w\<lparr>persisted := persisted w
                  @ [(server_path s, c\<lparr>cfg_uuid := Some (gen (uuid_count w))\<rparr>)],
              uuid_count := Suc (uuid_count w),
              servers := servers w @
                (case server_for_key s of None \<Rightarrow> []
                 | Some srv \<Rightarrow> [Some (srv\<lparr>ps_uuid := Some (gen (uuid_count w))\<rparr>)])\<rparr>)"
    by (simp add: init_entry_disabled assign_uuid_none split: option.splits)
next
  assume "\<forall>e \<in> set ifs. \<not> cfg_enabled (snd e)"
  then show "\<exists>ifs' w'. initInterfaces gen env ifs w = Returned (ifs', w') \<and> servers w' = servers w
        \<and> length (persisted w') = length (persisted w)
             + length (filter (\<lambda>e. cfg_uuid (snd e) = None) ifs)"
    by (rule initInterfaces_all_disabled)
qed

theorem disabled_entry_effects_witness:
  "\<not> cfg_enabled entry_off \<and> cfg_uuid entry_off = None
   \<and> initInterfaces_entry uuid_example env_all_start (''rules'', entry_off) new_WebServer =
        Returned ((''rules'', entry_off\<lparr>cfg_uuid := Some ''uuid-a''\<rparr>),
          \<lparr>servers = [],
           persisted = [(''web.interfaces.rules'', entry_off\<lparr>cfg_uuid := Some ''uuid-a''\<rparr>)],
           uuid_count = 1\<rparr>)
   \<and> \<not> cfg_enabled (entry_off\<lparr>cfg_uuid := Some ''uuid-a''\<rparr>)
   \<and> init_entry uuid_example env_all_start (''mdns'', entry_off\<lparr>cfg_uuid := Some ''uuid-a''\<rparr>)
        new_WebServer =
        Returned ((''mdns'', entry_off\<lparr>cfg_uuid := Some ''uuid-a''\<rparr>),
          \<lparr>servers = [Some \<lparr>ps_class = MdnsServer, ps_name = Some ''mdns'', ps_type = ''mdns'',
                      ps_uuid = Some ''uuid-a'', ps_isRunning = False\<rparr>],
           persisted = [], uuid_count = 0\<rparr>)
   \<and> (\<exists>ifs' w'. initInterfaces uuid_example env_all_start
            [(''rules'', entry_off), (''broker'', entry_off\<lparr>cfg_uuid := Some ''uuid-a''\<rparr>)]
            new_WebServer = Returned (ifs', w')
          \<and> servers w' = [] \<and> length (persisted w') = 1)"
proof -
  have off: "\<not> cfg_enabled entry_off \<and> cfg_uuid entry_off = None"
    by (simp add: entry_off_def)
  have off': "\<not> cfg_enabled (entry_off\<lparr>cfg_uuid := Some ''uuid-a''\<rparr>)
      \<and> cfg_uuid (entry_off\<lparr>cfg_uuid := Some ''uuid-a''\<rparr>) = Some ''uuid-a''"
    by (simp add: entry_off_def)
  from off disabled_entry_effects [of entry_off u0 uuid_example env_all_start "''rules''" new_WebServer "[]"]
  have a: "initInterfaces_entry uuid_example env_all_start (''rules'', entry_off) new_WebServer =
        Returned ((''rules'', entry_off\<lparr>cfg_uuid := Some (uuid_example (uuid_count new_WebServer))\<rparr>),
          new_WebServer\<lparr>persisted := persisted new_WebServer
                @ [(interface_path ''rules'',
                    entry_off\<lparr>cfg_uuid := Some (uuid_example (uuid_count new_WebServer))\<rparr>)],
            uuid_count := Suc (uuid_count new_WebServer)\<rparr>)"
    by blast
  from off' disabled_entry_effects [of "entry_off\<lparr>cfg_uuid := Some ''uuid-a''\<rparr>" "''uuid-a''"
      uuid_example env_all_start "''mdns''" new_WebServer "[]"]
  have b: "init_entry uuid_example env_all_start (''mdns'', entry_off\<lparr>cfg_uuid := Some ''uuid-a''\<rparr>)
        new_WebServer =
          Returned ((''mdns'', entry_off\<lparr>cfg_uuid := Some ''uuid-a''\<rparr>),
            new_WebServer\<lparr>servers := servers new_WebServer @
            (case server_for_key ''mdns'' of None \<Rightarrow> []
             | Some srv \<Rightarrow> [Some (srv\<lparr>ps_uuid := Some ''uuid-a''\<rparr>)])\<rparr>)"
    by blast
  have "\<forall>e \<in> set [(''rules'', entry_off), (''broker'', entry_off\<lparr>cfg_uuid := Some ''uuid-a''\<rparr>)].
      \<not> cfg_enabled (snd e)"
    by (simp add: entry_off_def)
  with disabled_entry_effects [where c = entry_off and gen = uuid_example and env = env_all_start
      and w = new_WebServer
      and ifs = "[(''rules'', entry_off), (''broker'', entry_off\<lparr>cfg_uuid := Some ''uuid-a''\<rparr>)]"]
  have c: "\<exists>ifs' w'. initInterfaces uuid_example env_all_start
            [(''rules'', entry_off), (''broker'', entry_off\<lparr>cfg_uuid := Some ''uuid-a''\<rparr>)]
            new_WebServer = Returned (ifs', w')
          \<and> servers w' = servers new_WebServer
          \<and> length (persisted w') = length (persisted new_WebServer)
             + length (filter (\<lambda>e. cfg_uuid (snd e) = None)
                 [(''rules'', entry_off), (''broker'', entry_off\<lparr>cfg_uuid := Some ''uuid-a''\<rparr>)])"
    by blast
  have c': "\<exists>ifs' w'. initInterfaces uuid_example env_all_start
            [(''rules'', entry_off), (''broker'', entry_off\<lparr>cfg_uuid := Some ''uuid-a''\<rparr>)]
            new_WebServer = Returned (ifs', w')
          \<and> servers w' = [] \<and> length (persisted w') = 1"
    using c by (simp add: new_WebServer_def entry_off_def)
  show ?thesis
    using off off' a b c'
    by (simp add: new_WebServer_def uuid_example_def interface_path_def server_for_key_def
        new_ProtoServer_def)
qed

subsection \<open>ServerRegistry: ids are assigned once\<close>

lemma init_entry_keeps_uuid:
  assumes "cfg_uuid c = Some u"
  shows "\<exists>w'. (init_entry gen env (s, c) w = Returned ((s, c), w')
             \<or> init_entry gen env (s, c) w = Threw ((s, c), w'))
          \<and> persisted w' = persisted w \<and> uuid_count w' = uuid_count w
          \<and> (servers w' = servers w
               \<or> (\<exists>h. servers w' = servers w @ [Some h] \<and> ps_uuid h = Some u))"
proof (cases "server_for_key s")
  case None
  with assms show ?thesis
    by (simp add: init_entry_def assign_uuid_some)
next
  case (Some srv)
  obtain srv' threw where i: "server_init env c srv = (srv', threw)"
    by (cases "server_init env c srv")
  have "ps_uuid srv' = Some u"
    using server_init_uuid [of env c srv] i assms by simp
  with assms Some i show ?thesis
    by (cases threw) (simp_all add: init_entry_def assign_uuid_some)
qed

lemma initInterfaces_entry_keeps_uuid:
  assumes "cfg_uuid c = Some u"
  shows "\<exists>w'. (initInterfaces_entry gen env (s, c) w = Returned ((s, c), w')
             \<or> initInterfaces_entry gen env (s, c) w = Threw ((s, c), w'))
          \<and> persisted w' = persisted w \<and> uuid_count w' = uuid_count w
          \<and> (servers w' = servers w
               \<or> (\<exists>h. servers w' = servers w @ [Some h] \<and> ps_uuid h = Some u))"
proof (cases "cfg_enabled c")
  case False
  with assms show ?thesis
    by (simp add: initInterfaces_entry_def assign_uuid_some)
next
  case True
  show ?thesis
  proof (cases "interface_for_type (interface_type c) (cfg_name c)")
    case None
    with assms True show ?thesis
      by (simp add: initInterfaces_entry_def assign_uuid_some)
  next
    case (Some intf)
    obtain intf' threw where i: "server_init env c intf = (intf', threw)"
      by (cases "server_init env c intf")
    have "ps_uuid intf' = Some u"
      using server_init_uuid [of env c intf] i assms by simp
    with assms True Some i show ?thesis
      by (cases threw) (simp_all add: initInterfaces_entry_def assign_uuid_some)
  qed
qed

text \<open>
A loop whose body leaves every entry and the two id fields alone does so as a whole.
\<close>

lemma for_in_keeps:
  assumes "\<And>e w. e \<in> set es \<Longrightarrow>
      \<exists>w'. (body e w = Returned (e, w') \<or> body e w = Threw (e, w'))
        \<and> persisted w' = persisted w \<and> uuid_count w' = uuid_count w"
  shows "\<exists>w'. (for_in body es w = Returned (es, w') \<or> for_in body es w = Threw (es, w'))
        \<and> persisted w' = persisted w \<and> uuid_count w' = uuid_count w"
  using assms
proof (induction es arbitrary: w)
  case Nil
  then show ?case by simp
next
  case (Cons e es)
  from Cons.prems [of e w] obtain w1 where
    b: "body e w = Returned (e, w1) \<or> body e w = Threw (e, w1)"
    and k: "persisted w1 = persisted w" "uuid_count w1 = uuid_count w"
    by auto
  from b show ?case
  proof
    assume t: "body e w = Threw (e, w1)"
    then show ?thesis using k by simp
  next
    assume r: "body e w = Returned (e, w1)"
    have "\<exists>w'. (for_in body es w1 = Returned (es, w') \<or> for_in body es w1 = Threw (es, w'))
        \<and> persisted w' = persisted w1 \<and> uuid_count w' = uuid_count w1"
      by (rule Cons.IH) (simp add: Cons.prems)
    then obtain w2 where
      f: "for_in body es w1 = Returned (es, w2) \<or> for_in body es w1 = Threw (es, w2)"
      and k2: "persisted w2 = persisted w1" "uuid_count w2 = uuid_count w1"
      by auto
    from f r k k2 show ?thesis by auto
  qed
qed

text \<open>
Every entry that a loop has passed carries an id.
\<close>

lemma init_entry_assigns:
  "init_entry gen env e w = Returned (e', w') \<Longrightarrow> cfg_uuid (snd e') \<noteq> None"
  using assign_uuid_has [of gen "server_path (fst e)" "snd e" w]
  by (cases e)
    (auto simp add: init_entry_def Let_def split: prod.splits option.splits if_splits)

lemma initInterfaces_entry_assigns:
  "initInterfaces_entry gen env e w = Returned (e', w') \<Longrightarrow> cfg_uuid (snd e') \<noteq> None"
  using assign_uuid_has [of gen "interface_path (fst e)" "snd e" w]
  by (cases e)
    (auto simp add: initInterfaces_entry_def split: prod.splits option.splits if_splits)

lemma for_in_assigns:
  assumes "\<And>e w e' w'. body e w = Returned (e', w') \<Longrightarrow> cfg_uuid (snd e') \<noteq> None"
  shows "for_in body es w = Returned (es', w') \<Longrightarrow> \<forall>e \<in> set es'. cfg_uuid (snd e) \<noteq> None"
proof (induction es arbitrary: w es')
  case Nil
  then show ?case by simp
next
  case (Cons e es)
  from Cons.prems obtain e1 w1 rest where
    b: "body e w = Returned (e1, w1)" and f: "for_in body es w1 = Returned (rest, w')"
    and es': "es' = e1 # rest"
    by (auto split: completion.splits prod.splits)
  from Cons.IH [OF f] assms [OF b] es' show ?case by simp
qed

lemma init_returned_all_assigned:
  assumes "init gen env cfg w = Returned (cfg1, w1)"
  shows "(\<forall>e \<in> set (web_servers cfg1). cfg_uuid (snd e) \<noteq> None)
       \<and> (\<forall>e \<in> set (web_interfaces cfg1). cfg_uuid (snd e) \<noteq> None)"
proof -
  from assms obtain ss wa ifs where
    a: "for_in (init_entry gen env) (web_servers cfg) w = Returned (ss, wa)"
    and b: "for_in (initInterfaces_entry gen env) (web_interfaces cfg) wa = Returned (ifs, w1)"
    and c: "cfg1 = \<lparr>web_servers = ss, web_interfaces = ifs\<rparr>"
    by (auto simp add: init_def initInterfaces_def split: completion.splits prod.splits)
  have "\<forall>e \<in> set ss. cfg_uuid (snd e) \<noteq> None"
    using for_in_assigns [of "init_entry gen env", OF init_entry_assigns a] .
  moreover have "\<forall>e \<in> set ifs. cfg_uuid (snd e) \<noteq> None"
    using for_in_assigns [of "initInterfaces_entry gen env", OF initInterfaces_entry_assigns b] .
  ultimately show ?thesis using c by simp
qed

lemma init_all_assigned_keeps:
  assumes s: "\<forall>e \<in> set (web_servers cfg). cfg_uuid (snd e) \<noteq> None"
    and i: "\<forall>e \<in> set (web_interfaces cfg). cfg_uuid (snd e) \<noteq> None"
  shows "\<exists>w'. (init gen env cfg w = Returned (cfg, w') \<or> init gen env cfg w = Threw (cfg, w'))
        \<and> persisted w' = persisted w \<and> uuid_count w' = uuid_count w"
proof -
  have "\<exists>w'. (for_in (init_entry gen env) (web_servers cfg) w = Returned (web_servers cfg, w')
           \<or> for_in (init_entry gen env) (web_servers cfg) w = Threw (web_servers cfg, w'))
        \<and> persisted w' = persisted w \<and> uuid_count w' = uuid_count w"
  proof (rule for_in_keeps)
    fix e v assume "e \<in> set (web_servers cfg)"
    with s obtain u where "cfg_uuid (snd e) = Some u" by auto
    from init_entry_keeps_uuid [OF this, of gen env "fst e" v]
    show "\<exists>w'. (init_entry gen env e v = Returned (e, w') \<or> init_entry gen env e v = Threw (e, w'))
        \<and> persisted w' = persisted v \<and> uuid_count w' = uuid_count v"
      by auto
  qed
  then obtain wa where
    a: "for_in (init_entry gen env) (web_servers cfg) w = Returned (web_servers cfg, wa)
           \<or> for_in (init_entry gen env) (web_servers cfg) w = Threw (web_servers cfg, wa)"
    and ka: "persisted wa = persisted w" "uuid_count wa = uuid_count w"
    by auto
  have "\<exists>w'. (for_in (initInterfaces_entry gen env) (web_interfaces cfg) wa
               = Returned (web_interfaces cfg, w')
           \<or> for_in (initInterfaces_entry gen env) (web_interfaces cfg) wa
               = Threw (web_interfaces cfg, w'))
        \<and> persisted w' = persisted wa \<and> uuid_count w' = uuid_count wa"
  proof (rule for_in_keeps)
    fix e v assume "e \<in> set (web_interfaces cfg)"
    with i obtain u where "cfg_uuid (snd e) = Some u" by auto
    from initInterfaces_entry_keeps_uuid [OF this, of gen env "fst e" v]
    show "\<exists>w'. (initInterfaces_entry gen env e v = Returned (e, w')
             \<or> initInterfaces_entry gen env e v = Threw (e, w'))
        \<and> persisted w' = persisted v \<and> uuid_count w' = uuid_count v"
      by auto
  qed
  then obtain wb where
    b: "for_in (initInterfaces_entry gen env) (web_interfaces cfg) wa
               = Returned (web_interfaces cfg, wb)
           \<or> for_in (initInterfaces_entry gen env) (web_interfaces cfg) wa
               = Threw (web_interfaces cfg, wb)"
    and kb: "persisted wb = persisted wa" "uuid_count wb = uuid_count wa"
    by auto
  from a show ?thesis
  proof
    assume "for_in (init_entry gen env) (web_servers cfg) w = Threw (web_servers cfg, wa)"
    then have "init gen env cfg w = Threw (cfg, wa)"
      by (simp add: init_def)
    with ka show ?thesis by blast
  next
    assume r: "for_in (init_entry gen env) (web_servers cfg) w = Returned (web_servers cfg, wa)"
    from b have "init gen env cfg w = Returned (cfg, wb) \<or> init gen env cfg w = Threw (cfg, wb)"
      using r by (auto simp add: init_def initInterfaces_def)
    with ka kb show ?thesis by auto
  qed
qed

lemma init_web_example:
  "init uuid_example env_all_start web_example new_WebServer
     = Returned (web_example_after, registry_after)"
  by (simp add: init_def init_entry_def initInterfaces_def initInterfaces_entry_def
      assign_uuid_def server_for_key_def interface_for_type_def interface_type_def
      server_init_def new_ProtoServer_def uuid_example_def new_WebServer_def entry_off_def
      entry_on_def env_all_start_def web_example_def web_example_after_def registry_after_def
      server_path_def Let_def)

text \<open>
  Claim C9. For an entry that carries an id \<open>u\<close>: a handle's \<open>init\<close> with that entry
  leaves the handle with \<open>u\<close>; the loop bodies of \<open>init\<close> and \<open>initInterfaces\<close>
  return the entry as it was, persist nothing, do not call the generator, and a handle
  they register carries \<open>u\<close>. And after an \<open>init\<close> that returned, any later
  \<open>init\<close> on the resulting configuration (whatever the generator and the host do)
  leaves the configuration as it is, persists nothing and does not call the generator.
\<close>

theorem uuid_never_regenerated:
  "(cfg_uuid c = Some u \<longrightarrow>
      ps_uuid (fst (server_init env c h)) = Some u
      \<and> (\<exists>w'. (init_entry gen env (s, c) w = Returned ((s, c), w')
                 \<or> init_entry gen env (s, c) w = Threw ((s, c), w'))
            \<and> persisted w' = persisted w \<and> uuid_count w' = uuid_count w
            \<and> (servers w' = servers w
                 \<or> (\<exists>h. servers w' = servers w @ [Some h] \<and> ps_uuid h = Some u)))
      \<and> (\<exists>w'. (initInterfaces_entry gen env (s, c) w = Returned ((s, c), w')
                 \<or> initInterfaces_entry gen env (s, c) w = Threw ((s, c), w'))
            \<and> persisted w' = persisted w \<and> uuid_count w' = uuid_count w
            \<and> (servers w' = servers w
                 \<or> (\<exists>h. servers w' = servers w @ [Some h] \<and> ps_uuid h = Some u))))
   \<and> (init gen env cfg w = Returned (cfg1, w1) \<longrightarrow>
        (\<exists>v'. (init gen2 env2 cfg1 v = Returned (cfg1, v')
                 \<or> init gen2 env2 cfg1 v = Threw (cfg1, v'))
            \<and> persisted v' = persisted v \<and> uuid_count v' = uuid_count v))"
proof (intro conjI impI)
  assume u: "cfg_uuid c = Some u"
  then show "ps_uuid (fst (server_init env c h)) = Some u"
    by (simp add: server_init_uuid)
  from u show "\<exists>w'. (init_entry gen env (s, c) w = Returned ((s, c), w')
                 \<or> init_entry gen env (s, c) w = Threw ((s, c), w'))
            \<and> persisted w' = persisted w \<and> uuid_count w' = uuid_count w
            \<and> (servers w' = servers w
                 \<or> (\<exists>h. servers w' = servers w @ [Some h] \<and> ps_uuid h = Some u))"
    by (rule init_entry_keeps_uuid)
  from u show "\<exists>w'. (initInterfaces_entry gen env (s, c) w = Returned ((s, c), w')
                 \<or> initInterfaces_entry gen env (s, c) w = Threw ((s, c), w'))
            \<and> persisted w' = persisted w \<and> uuid_count w' = uuid_count w
            \<and> (servers w' = servers w
                 \<or> (\<exists>h. servers w' = servers w @ [Some h] \<and> ps_uuid h = Some u))"
    by (rule initInterfaces_entry_keeps_uuid)
next
  assume "init gen env cfg w = Returned (cfg1, w1)"
  from init_returned_all_assigned [OF this]
  show "\<exists>v'. (init gen2 env2 cfg1 v = Returned (cfg1, v')
                 \<or> init gen2 env2 cfg1 v = Threw (cfg1, v'))
            \<and> persisted v' = persisted v \<and> uuid_count v' = uuid_count v"
    using init_all_assigned_keeps [of cfg1 gen2 env2 v] by blast
qed

theorem uuid_never_regenerated_witness:
  "cfg_uuid entry_on = Some ''uuid-kept''
   \<and> ps_uuid (fst (server_init env_all_start entry_on
         (new_ProtoServer MqttInterfaceServer (Some ''broker'') ''mqtt''))) = Some ''uuid-kept''
   \<and> init uuid_example env_all_start web_example new_WebServer
         = Returned (web_example_after, registry_after)
   \<and> (\<exists>v'. (init uuid_example env_all_start web_example_after registry_after
                = Returned (web_example_after, v')
              \<or> init uuid_example env_all_start web_example_after registry_after
                = Threw (web_example_after, v'))
          \<and> persisted v' = persisted registry_after \<and> uuid_count v' = 1)"
proof -
  have u: "cfg_uuid entry_on = Some ''uuid-kept''"
    by (simp add: entry_on_def)
  have c: "uuid_count registry_after = 1"
    by (simp add: registry_after_def)
  from uuid_never_regenerated [where c = entry_on and u = "''uuid-kept''" and env = env_all_start
      and h = "new_ProtoServer MqttInterfaceServer (Some ''broker'') ''mqtt''"
      and gen = uuid_example and s = "''broker''" and w = new_WebServer and cfg = web_example
      and ?cfg1.0 = web_example_after and ?w1.0 = registry_after
      and ?gen2.0 = uuid_example and ?env2.0 = env_all_start and v = registry_after]
    u init_web_example c
  show ?thesis by simp
qed

subsection \<open>ServerRegistry: the order of stopping\<close>

text \<open>
  Whatever rejects, \<open>stopAsync\<close> is called on every registered handle, in registration
  order, and the array keeps its length.
\<close>

lemma stop_loop_calls:
  "stop_calls (stop_loop rejects i srvs) = map the (filter (\<lambda>x. x \<noteq> None) srvs)"
  by (induction rejects i srvs rule: stop_loop.induct) (simp_all add: Let_def)

lemma stop_loop_length: "length (stop_servers (stop_loop rejects i srvs)) = length srvs"
  by (induction rejects i srvs rule: stop_loop.induct) (simp_all add: Let_def)

text \<open>
  Claim C4 on a registry holding \<open>http\<close>, then \<open>mdns\<close>: the first handle stopped is
  \<open>http\<close>, the first registered, where the claim (and the comment in the loop, ``We want
  to stop all the servers in reverse order'') has \<open>mdns\<close> first.
\<close>

theorem stopAsync_registration_order_example:
  "stop_calls (snd (stopAsync never_rejects
      \<lparr>servers = [Some http_handle, Some mdns_handle], persisted = [], uuid_count = 2\<rparr>))
    = [http_handle, mdns_handle]"
  by (simp add: stopAsync_def never_rejects_def Let_def)

subsection \<open>DiscoveryBridge\<close>

lemma on_answers_quiet:
  "\<forall>a \<in> set answers. \<not> throws a \<Longrightarrow>
   on_answers throws query answers m =
     Returned (m\<lparr>emitted := emitted m @ filter (\<lambda>a. a_name a = q_name query) answers,
                queries := (if \<exists>a \<in> set answers. a_name a = q_name query
                            then filter (\<lambda>value. q_name value \<noteq> q_name query) (queries m)
                            else queries m)\<rparr>)"
proof (induction answers arbitrary: m)
  case Nil
  then show ?case by simp
next
  case (Cons a answers)
  then show ?case by (auto simp add: Let_def)
qed

lemma on_answers_no_match:
  "\<forall>a \<in> set answers. a_name a \<noteq> q_name query \<Longrightarrow> on_answers throws query answers m = Returned m"
  by (induction answers arbitrary: m) simp_all

lemma on_queries_no_match:
  "\<forall>q \<in> set qs. \<forall>a \<in> set answers. a_name a \<noteq> q_name q \<Longrightarrow>
     on_queries throws qs answers m = Returned m"
  by (induction qs arbitrary: m) (simp_all add: on_answers_no_match)

lemma on_queries_append:
  "on_queries throws (qs @ rs) answers m =
     (case on_queries throws qs answers m of
        Threw m1 \<Rightarrow> Threw m1
      | Returned m1 \<Rightarrow> on_queries throws rs answers m1)"
  by (induction qs arbitrary: m) (simp_all split: completion.splits)

text \<open>
  Claim C3 as stated fails when the packet carries two answers of the pending name (two
  address records of one host): one pending query, two notifications.
\<close>

theorem on_response_duplicate_answer:
  "on_response no_listener_throws [answer_test, answer_test2] \<lparr>queries = [query_test], emitted = []\<rparr>
     = Returned \<lparr>queries = [], emitted = [answer_test, answer_test2]\<rparr>"
  by (simp add: on_response_def no_listener_throws_def query_test_def answer_test_def
      answer_test2_def)

text \<open>
  Claim C3, amended. When no listener throws, exactly one pending query has a name that
  occurs among the answers, and exactly one answer of the packet carries that name, the
  handler emits exactly that one answer and removes exactly that query, the other pending
  queries staying in their order. A packet none of whose answers carries the name of a
  pending query leaves the pending queries as they are and emits nothing.
\<close>

theorem on_response_single_match:
  "((\<forall>b \<in> set answers. \<not> throws b)
     \<and> queries m = pre @ query # post
     \<and> (\<forall>p \<in> set pre \<union> set post. \<forall>b \<in> set answers. a_name b \<noteq> q_name p)
     \<and> answers = before @ answer # after
     \<and> a_name answer = q_name query
     \<and> (\<forall>b \<in> set before \<union> set after. a_name b \<noteq> q_name query)
     \<longrightarrow> on_response throws answers m
           = Returned (m\<lparr>emitted := emitted m @ [answer], queries := pre @ post\<rparr>))
   \<and> ((\<forall>q \<in> set (queries m). \<forall>b \<in> set answers. a_name b \<noteq> q_name q)
     \<longrightarrow> on_response throws answers m = Returned m)"
proof (intro conjI impI)
  assume h: "(\<forall>b \<in> set answers. \<not> throws b)
     \<and> queries m = pre @ query # post
     \<and> (\<forall>p \<in> set pre \<union> set post. \<forall>b \<in> set answers. a_name b \<noteq> q_name p)
     \<and> answers = before @ answer # after
     \<and> a_name answer = q_name query
     \<and> (\<forall>b \<in> set before \<union> set after. a_name b \<noteq> q_name query)"
  then have quiet: "\<forall>b \<in> set answers. \<not> throws b"
    and qs: "queries m = pre @ query # post"
    and others: "\<forall>p \<in> set pre \<union> set post. \<forall>b \<in> set answers. a_name b \<noteq> q_name p"
    and as: "answers = before @ answer # after"
    and hit: "a_name answer = q_name query"
    and single: "\<forall>b \<in> set before \<union> set after. a_name b \<noteq> q_name query"
    by blast+
  have in_answers: "answer \<in> set answers" using as by simp
  have pre_quiet: "on_queries throws pre answers m = Returned m"
    using others by (simp add: on_queries_no_match)
  have names: "\<forall>p \<in> set pre \<union> set post. q_name p \<noteq> q_name query"
    using others in_answers hit by metis
  have one: "filter (\<lambda>a. a_name a = q_name query) answers = [answer]"
    using single hit by (simp add: as filter_empty_conv)
  have kept: "filter (\<lambda>value. q_name value \<noteq> q_name query) (queries m) = pre @ post"
  proof -
    have "filter (\<lambda>value. q_name value \<noteq> q_name query) pre = pre"
      using names by (simp add: filter_id_conv)
    moreover have "filter (\<lambda>value. q_name value \<noteq> q_name query) post = post"
      using names by (simp add: filter_id_conv)
    ultimately show ?thesis by (simp add: qs)
  qed
  have ex: "\<exists>a \<in> set answers. a_name a = q_name query"
    using in_answers hit by blast
  have step: "on_answers throws query answers m
      = Returned (m\<lparr>emitted := emitted m @ [answer], queries := pre @ post\<rparr>)"
    using on_answers_quiet [OF quiet, of query m] one kept ex by simp
  have post_quiet: "on_queries throws post answers
        (m\<lparr>emitted := emitted m @ [answer], queries := pre @ post\<rparr>)
      = Returned (m\<lparr>emitted := emitted m @ [answer], queries := pre @ post\<rparr>)"
    using others by (simp add: on_queries_no_match)
  show "on_response throws answers m
           = Returned (m\<lparr>emitted := emitted m @ [answer], queries := pre @ post\<rparr>)"
    by (simp add: on_response_def qs on_queries_append pre_quiet step post_quiet)
next
  assume "\<forall>q \<in> set (queries m). \<forall>b \<in> set answers. a_name b \<noteq> q_name q"
  then show "on_response throws answers m = Returned m"
    by (simp add: on_response_def on_queries_no_match)
qed

theorem on_response_single_match_witness:
  "on_response no_listener_throws [answer_printer, answer_test]
       \<lparr>queries = [query_other, query_test], emitted = []\<rparr>
     = Returned \<lparr>queries = [query_other], emitted = [answer_test]\<rparr>
   \<and> on_response no_listener_throws [answer_printer]
       \<lparr>queries = [query_other, query_test], emitted = []\<rparr>
     = Returned \<lparr>queries = [query_other, query_test], emitted = []\<rparr>"
proof -
  let ?m = "\<lparr>queries = [query_other, query_test], emitted = []\<rparr>"
  have "on_response no_listener_throws [answer_printer, answer_test] ?m
      = Returned (?m\<lparr>emitted := emitted ?m @ [answer_test], queries := [query_other] @ []\<rparr>)"
    using on_response_single_match [where throws = no_listener_throws
        and answers = "[answer_printer, answer_test]" and m = ?m and pre = "[query_other]"
        and query = query_test and post = "[]" and before = "[answer_printer]"
        and answer = answer_test and after = "[]"]
    by (simp add: no_listener_throws_def query_test_def query_other_def answer_test_def
        answer_printer_def)
  moreover have "on_response no_listener_throws [answer_printer] ?m = Returned ?m"
    using on_response_single_match [where throws = no_listener_throws
        and answers = "[answer_printer]" and m = ?m]
    by (simp add: query_test_def query_other_def answer_printer_def)
  ultimately show ?thesis by simp
qed

subsection \<open>BindingLoader\<close>



text \<open>
  A third way for a load to fail: the file disappears between the read and the stat. The
  new binding is in place, yet the load returns \<open>false\<close> and the bridge is marked not
  running.
\<close>

lemma stat_failure_replaces_binding:
  "loadBindings decode_example () file_vanishing bridge_loaded
     = (\<lparr>isRunning = False, isLoading = False, fileTime = 1000, bindings = Some ''{new}'',
         load_calls = 2\<rparr>, False)"
  by (simp add: loadBindings_def catch_load_def decode_example_def file_vanishing_def
      bridge_loaded_def)



lemma watch_callback_calls:
  "watch_callback decode cfg ev stats disk s = Returned s' \<Longrightarrow> load_calls s' \<le> Suc (load_calls s)"
  by (auto simp add: watch_callback_def loadBindings_def catch_load_def Let_def
      split: if_splits option.splits)

text \<open>
  Claim C7. A change notification that finds no load in progress and the file's
  modification time equal to the one recorded at the last successful load returns with
  the handle unchanged: no call of \<open>loadBindings\<close>, the same binding. For a pair of
  notifications of which the second is such a one, \<open>loadBindings\<close> has run at most
  once.
\<close>

theorem same_mtime_no_reload:
  "(\<not> isLoading s \<and> stats = Some mtime \<and> mtime = fileTime s \<longrightarrow>
      watch_callback decode cfg ev stats disk s = Returned s)
   \<and> (watch_callback decode cfg ev1 stats1 disk1 s0 = Returned s
        \<and> \<not> isLoading s \<and> stats = Some mtime \<and> mtime = fileTime s \<longrightarrow>
      (\<exists>s'. watch_callback decode cfg ev stats disk s = Returned s'
          \<and> bindings s' = bindings s \<and> load_calls s' = load_calls s
          \<and> load_calls s' \<le> Suc (load_calls s0)))"
proof (intro conjI impI)
  assume "\<not> isLoading s \<and> stats = Some mtime \<and> mtime = fileTime s"
  then show "watch_callback decode cfg ev stats disk s = Returned s"
    by (simp add: watch_callback_def)
next
  assume h: "watch_callback decode cfg ev1 stats1 disk1 s0 = Returned s
        \<and> \<not> isLoading s \<and> stats = Some mtime \<and> mtime = fileTime s"
  then have "watch_callback decode cfg ev stats disk s = Returned s"
    by (simp add: watch_callback_def)
  moreover from h have "load_calls s \<le> Suc (load_calls s0)"
    using watch_callback_calls [of decode cfg ev1 stats1 disk1 s0 s] by simp
  ultimately show "\<exists>s'. watch_callback decode cfg ev stats disk s = Returned s'
          \<and> bindings s' = bindings s \<and> load_calls s' = load_calls s
          \<and> load_calls s' \<le> Suc (load_calls s0)"
    by simp
qed

theorem same_mtime_no_reload_witness:
  "watch_callback decode_example () change_event (Some 3000) file_edited bridge_loaded
      = Returned bridge_reloaded
   \<and> \<not> isLoading bridge_reloaded \<and> fileTime bridge_reloaded = 3000
   \<and> watch_callback decode_example () change_event (Some 3000) file_edited bridge_reloaded
      = Returned bridge_reloaded
   \<and> load_calls bridge_reloaded = Suc (load_calls bridge_loaded)"
proof -
  have first: "watch_callback decode_example () change_event (Some 3000) file_edited bridge_loaded
      = Returned bridge_reloaded"
    by (simp add: watch_callback_def loadBindings_def decode_example_def change_event_def
        file_edited_def bridge_loaded_def bridge_reloaded_def truthy_def)
  have h1: "\<not> isLoading bridge_reloaded"
    by (simp add: bridge_reloaded_def)
  have h2: "(3000::int) = fileTime bridge_reloaded"
    by (simp add: bridge_reloaded_def)
  from same_mtime_no_reload [where s = bridge_reloaded and stats = "Some 3000" and mtime = 3000
      and disk = file_edited and decode = decode_example and cfg = "()" and ev = change_event
      and ?ev1.0 = change_event and ?stats1.0 = "Some 3000" and ?disk1.0 = file_edited
      and ?s0.0 = bridge_loaded] h1 h2 first
  have second: "watch_callback decode_example () change_event (Some 3000) file_edited bridge_reloaded
      = Returned bridge_reloaded"
    by blast
  have rest: "fileTime bridge_reloaded = 3000"
      "load_calls bridge_reloaded = Suc (load_calls bridge_loaded)"
    by (simp_all add: bridge_reloaded_def bridge_loaded_def)
  from first h1 second rest show ?thesis
    by blast
qed

subsection \<open>HandshakeCoordinator\<close>

lemma run_append: "run (es @ fs) h = run fs (run es h)"
  by (induction es arbitrary: h) simp_all

lemma idle_step: "idle h \<Longrightarrow> step e h = h"
  by (cases e)
    (simp_all add: idle_def register_returned_def settle_elapsed_def timer_fired_def
      server_event_def socket_event_def verify_returned_def)

lemma idle_run: "idle h \<Longrightarrow> run es h = h"
  by (induction es) (simp_all add: idle_step)

lemma register_failure_idle:
  "not_ok_register (status_code res) \<Longrightarrow>
     idle (register_returned (Responded res) initConnection)"
  by (simp add: idle_def register_returned_def initConnection_def reject_def Let_def
      split: option.splits)

lemma register_failure_state:
  "not_ok_register (status_code res) \<Longrightarrow>
     register_returned (Responded res) initConnection =
       initConnection\<lparr>register_pending := False, result := Some res,
         promise := (case resp_error res of None \<Rightarrow> Pending
                     | Some msg \<Rightarrow> Rejected (InitConnection msg))\<rparr>"
  by (simp add: register_returned_def initConnection_def reject_def Let_def
      split: option.splits)

text \<open>
  After a registration with a bad status nothing more is sent and no listener is
  registered, whatever comes later, and when the response carries an error the promise is
  rejected with its message.
\<close>

theorem register_failure_stops_handshake:
  "not_ok_register (status_code res) \<longrightarrow>
     effects (run (RegisterReturned (Responded res) # later) initConnection)
       = [Put ''/config/checkconnection/'']
     \<and> server_once (run (RegisterReturned (Responded res) # later) initConnection) = []
     \<and> \<not> verify_pending (run (RegisterReturned (Responded res) # later) initConnection)
     \<and> (\<forall>msg. resp_error res = Some msg \<longrightarrow>
          promise (run (RegisterReturned (Responded res) # later) initConnection)
            = Rejected (InitConnection msg))"
proof
  assume n: "not_ok_register (status_code res)"
  have eq: "run (RegisterReturned (Responded res) # later) initConnection
      = register_returned (Responded res) initConnection"
    using idle_run [OF register_failure_idle [OF n]] by simp
  show "effects (run (RegisterReturned (Responded res) # later) initConnection)
       = [Put ''/config/checkconnection/'']
     \<and> server_once (run (RegisterReturned (Responded res) # later) initConnection) = []
     \<and> \<not> verify_pending (run (RegisterReturned (Responded res) # later) initConnection)
     \<and> (\<forall>msg. resp_error res = Some msg \<longrightarrow>
          promise (run (RegisterReturned (Responded res) # later) initConnection)
            = Rejected (InitConnection msg))"
    unfolding eq register_failure_state [OF n]
    by (simp add: initConnection_def)
qed

theorem register_failure_stops_handshake_witness:
  "not_ok_register (status_code response_timeout)
   \<and> effects (run [RegisterReturned (Responded response_timeout), SettleElapsed True,
        ServerEvent ''/checkemit''] initConnection) = [Put ''/config/checkconnection/'']
   \<and> promise (run [RegisterReturned (Responded response_timeout), SettleElapsed True,
        ServerEvent ''/checkemit''] initConnection) = Rejected (InitConnection ''Request timeout'')"
  using register_failure_stops_handshake [of response_timeout
      "[SettleElapsed True, ServerEvent ''/checkemit'']"]
  by (simp add: not_ok_register_def response_timeout_def)

text \<open>
  Claim C5 on a registration answered with status 500 and the body \<open>null\<close>, which
  \<open>sendClientRequest\<close> turns into \<open>error = null\<close>: the second phase never runs, but
  the promise is never rejected either; reading \<open>result.error.message\<close> throws inside
  the \<open>async\<close> executor.
\<close>

theorem register_failure_null_error_never_settles:
  "promise (run (RegisterReturned (Responded response_500_null) # later) initConnection) = Pending
   \<and> effects (run (RegisterReturned (Responded response_500_null) # later) initConnection)
       = [Put ''/config/checkconnection/'']"
proof -
  have n: "not_ok_register (status_code response_500_null)"
    by (simp add: not_ok_register_def response_500_null_def)
  have eq: "run (RegisterReturned (Responded response_500_null) # later) initConnection
      = register_returned (Responded response_500_null) initConnection"
    using idle_run [OF register_failure_idle [OF n]] by simp
  show ?thesis
    unfolding eq register_failure_state [OF n]
    by (simp add: response_500_null_def initConnection_def)
qed

text \<open>
  No run registers a listener on a socket, so an event that arrives on a socket changes
  nothing.
\<close>

lemma socket_once_step: "socket_once h = [] \<Longrightarrow> socket_once (step e h) = []"
  by (cases e)
    (simp_all add: register_returned_def settle_elapsed_def timer_fired_def server_event_def
      socket_event_def verify_returned_def catch_setTimeout_def checkemit_listener_def
      addListenerOnce_def resolve_def reject_def Let_def
      split: request_outcome.splits option.splits)

lemma socket_once_run: "socket_once h = [] \<Longrightarrow> socket_once (run es h) = []"
  by (induction es arbitrary: h) (simp_all add: socket_once_step)

lemma socket_event_ignored:
  "step (SocketEvent ev) (run es initConnection) = run es initConnection"
proof -
  have "socket_once (run es initConnection) = []"
    by (rule socket_once_run) (simp add: initConnection_def)
  then show ?thesis
    by (simp add: socket_event_def)
qed

lemma phase2_started:
  "\<not> not_ok_register (status_code res) \<Longrightarrow> resp_obj res = Some cid \<Longrightarrow>
     settle_elapsed True (register_returned (Responded res) initConnection) =
       \<lparr>promise = Pending, remoteConnectionId = cid, result = Some res, register_pending = False,
        delay_pending = False, timer_armed = True, server_once = [''/checkemit''],
        socket_once = [], verify_pending = True,
        effects = [Put ''/config/checkconnection/'', AddListenerOnce ''/checkemit'',
                   Put ''/config/checkemit'']\<rparr>"
  by (simp add: register_returned_def settle_elapsed_def addListenerOnce_def initConnection_def
      Let_def)

text \<open>
  Claim C6 on a run where the registration succeeded and the peer's acknowledgment, the
  event \<open>/checkemit\<close> emitted over its socket, arrives right after the second phase has
  started, before the timer and before the verify-emit request comes back. The listener
  sits on the socket server object and does not run, so the verify-emit request or the
  timer decides: the promise is rejected when the request answers 500, when it times
  out, and when it never returns.
\<close>

theorem acknowledgment_on_socket_is_not_heard:
  "promise (run [RegisterReturned (Responded response_ok), SettleElapsed True,
       SocketEvent ''/checkemit'', VerifyReturned (Responded response_500)] initConnection)
     = Rejected (InitConnection ''Internal error'')
   \<and> promise (run [RegisterReturned (Responded response_ok), SettleElapsed True,
       SocketEvent ''/checkemit'', VerifyReturned (Responded response_timeout)] initConnection)
     = Rejected (InitConnection ''Request timeout'')
   \<and> promise (run [RegisterReturned (Responded response_ok), SettleElapsed True,
       SocketEvent ''/checkemit'', TimerFired] initConnection)
     = Rejected NoSocketResponse"
proof -
  have ok: "\<not> not_ok_register (status_code response_ok)"
      "resp_obj response_ok = Some (Some ''abc'')"
    by (simp_all add: not_ok_register_def response_ok_def)
  show ?thesis
    by (simp add: phase2_started [OF ok])
      (simp add: socket_event_def verify_returned_def timer_fired_def reject_def
        not_ok_verify_def response_500_def response_timeout_def Let_def)
qed

text \<open>
A resolved promise stays resolved.
\<close>

lemma resolved_step: "promise h = Resolved \<Longrightarrow> promise (step e h) = Resolved"
  by (cases e)
    (simp_all add: register_returned_def settle_elapsed_def timer_fired_def server_event_def
      socket_event_def verify_returned_def catch_setTimeout_def checkemit_listener_def
      addListenerOnce_def resolve_def reject_def Let_def
      split: request_outcome.splits option.splits)

lemma resolved_run: "promise h = Resolved \<Longrightarrow> promise (run es h) = Resolved"
  by (induction es arbitrary: h) (simp_all add: resolved_step)

lemma awaiting_ack_step:
  "awaiting_ack h \<Longrightarrow> before_ack_ok e \<Longrightarrow> awaiting_ack (step e h)"
proof (cases e)
  case (ServerEvent ev)
  assume a: "awaiting_ack h"
  show ?thesis
  proof (cases "ev = ''/checkemit''")
    case True
    with a ServerEvent show ?thesis
      by (auto simp add: awaiting_ack_def server_event_def checkemit_listener_def resolve_def)
  next
    case False
    with a ServerEvent show ?thesis
      by (auto simp add: awaiting_ack_def server_event_def checkemit_listener_def resolve_def)
  qed
qed (auto simp add: awaiting_ack_def before_ack_ok_def register_returned_def settle_elapsed_def
      socket_event_def verify_returned_def resolve_def Let_def
      split: request_outcome.splits)

lemma awaiting_ack_run:
  "awaiting_ack h \<Longrightarrow> \<forall>e \<in> set es. before_ack_ok e \<Longrightarrow> awaiting_ack (run es h)"
  by (induction es arbitrary: h) (simp_all add: awaiting_ack_step)

lemma awaiting_ack_ack:
  "awaiting_ack h \<Longrightarrow> promise (server_event ''/checkemit'' h) = Resolved"
  by (auto simp add: awaiting_ack_def server_event_def checkemit_listener_def resolve_def)

text \<open>
  When the listener does run (the event is emitted on the server object) before the
  timer fires and before the verify-emit request has failed, the promise is resolved and
  stays so whatever comes later.
\<close>

lemma listener_run_establishes:
  "\<not> not_ok_register (status_code res) \<and> resp_obj res = Some cid
     \<and> (\<forall>e \<in> set pre. before_ack_ok e) \<longrightarrow>
   promise (run (RegisterReturned (Responded res) # SettleElapsed True
                   # pre @ ServerEvent ''/checkemit'' # later)
              initConnection) = Resolved"
proof
  assume h: "\<not> not_ok_register (status_code res) \<and> resp_obj res = Some cid
     \<and> (\<forall>e \<in> set pre. before_ack_ok e)"
  let ?h2 = "settle_elapsed True (register_returned (Responded res) initConnection)"
  have "awaiting_ack ?h2"
    using h by (simp add: phase2_started [of res cid] awaiting_ack_def)
  then have "awaiting_ack (run pre ?h2)"
    using h by (simp add: awaiting_ack_run)
  then have "promise (server_event ''/checkemit'' (run pre ?h2)) = Resolved"
    by (rule awaiting_ack_ack)
  then have "promise (run later (server_event ''/checkemit'' (run pre ?h2))) = Resolved"
    by (rule resolved_run)
  moreover have "run (RegisterReturned (Responded res) # SettleElapsed True
        # pre @ ServerEvent ''/checkemit'' # later) initConnection
      = run later (server_event ''/checkemit'' (run pre ?h2))"
    by (simp add: run_append)
  ultimately show "promise (run (RegisterReturned (Responded res) # SettleElapsed True
        # pre @ ServerEvent ''/checkemit'' # later) initConnection) = Resolved"
    by simp
qed

text \<open>
  The race the other way round: a verify-emit request that fails before the listener
  runs rejects the promise, and the listener changes nothing.
\<close>

lemma verify_error_before_listener_rejects:
  "promise (run [RegisterReturned (Responded response_ok), SettleElapsed True,
       VerifyReturned (Responded response_500), ServerEvent ''/checkemit''] initConnection)
     = Rejected (InitConnection ''Internal error'')"
  by (simp add: register_returned_def settle_elapsed_def verify_returned_def server_event_def
      addListenerOnce_def checkemit_listener_def initConnection_def response_ok_def
      response_500_def not_ok_register_def not_ok_verify_def resolve_def reject_def Let_def)

subsection \<open>The \<open>REMInterfaceServer\<close> handle\<close>

lemma socket_implies_running: "rem_reachable s \<Longrightarrow> sockClient s \<noteq> None \<Longrightarrow> rem_isRunning s"
proof (induction rule: rem_reachable.induct)
  case reach_new
  then show ?case by (simp add: new_REMInterfaceServer_def)
next
  case (reach_init s cfg socket_ok)
  then show ?case by (auto simp add: rem_init_def Let_def split: if_splits)
next
  case (reach_socket s connected)
  then show ?case by (auto simp add: socket_status_def split: option.splits)
next
  case (reach_store s cid)
  then show ?case by (simp add: store_connection_id_def)
qed

text \<open>
  Claim C8 as stated fails: a handle whose socket has connected reports
  \<open>isConnected\<close> before any handshake has stored a connection id, and a bridge that
  inherits the getter of \<open>ProtoServer\<close> is connected as soon as it is running.
\<close>

theorem connected_without_handshake:
  "rem_reachable (socket_status True (rem_init entry_on True new_REMInterfaceServer))
   \<and> isConnected (socket_status True (rem_init entry_on True new_REMInterfaceServer)) = Inr True
   \<and> rem_connectionId (socket_status True (rem_init entry_on True new_REMInterfaceServer)) = None
   \<and> ProtoServer_isConnected http_bridge = ps_isRunning http_bridge
   \<and> ProtoServer_isConnected http_bridge"
proof -
  have "rem_reachable (socket_status True (rem_init entry_on True new_REMInterfaceServer))"
    by (intro rem_reachable.intros)
  then show ?thesis
    by (simp add: isConnected_def socket_status_def rem_init_def new_REMInterfaceServer_def
        entry_on_def ProtoServer_isConnected_def http_bridge_def)
qed

text \<open>
  Claim C8, amended. In every reachable state of a \<open>REMInterfaceServer\<close> handle,
  \<open>isConnected\<close> is true exactly when the socket client reports connected; then
  \<open>isRunning\<close> is true as well, and storing a connection id changes nothing about it.
  For a bridge that inherits the getter of \<open>ProtoServer\<close>, \<open>isConnected\<close> is
  \<open>isRunning\<close>.
\<close>

theorem rem_connected_is_socket_state:
  "(rem_reachable s \<longrightarrow>
      (isConnected s = Inr True \<longleftrightarrow> sockClient s = Some True)
      \<and> (isConnected s = Inr True \<longrightarrow> rem_isRunning s)
      \<and> isConnected (store_connection_id cid s) = isConnected s)
   \<and> ProtoServer_isConnected h = ps_isRunning h"
proof (intro conjI impI)
  show "(isConnected s = Inr True) = (sockClient s = Some True)"
    by (simp add: isConnected_def split: option.splits)
  show "isConnected (store_connection_id cid s) = isConnected s"
    by (simp add: isConnected_def store_connection_id_def)
  show "ProtoServer_isConnected h = ps_isRunning h"
    by (simp add: ProtoServer_isConnected_def)
next
  assume "rem_reachable s" and "isConnected s = Inr True"
  then show "rem_isRunning s"
    using socket_implies_running [of s] by (auto simp add: isConnected_def split: option.splits)
qed

theorem rem_connected_is_socket_state_witness:
  "rem_reachable (store_connection_id (Some ''abc'') (rem_init entry_on True new_REMInterfaceServer))
   \<and> isConnected (store_connection_id (Some ''abc'') (rem_init entry_on True new_REMInterfaceServer))
       = Inr False
   \<and> isConnected (socket_status True (rem_init entry_on True new_REMInterfaceServer)) = Inr True
   \<and> rem_isRunning (socket_status True (rem_init entry_on True new_REMInterfaceServer))"
proof -
  let ?s = "socket_status True (rem_init entry_on True new_REMInterfaceServer)"
  have r: "rem_reachable ?s"
    by (intro rem_reachable.intros)
  have c: "isConnected ?s = Inr True"
    by (simp add: isConnected_def socket_status_def rem_init_def new_REMInterfaceServer_def
        entry_on_def)
  from rem_connected_is_socket_state [of ?s cid0 h0] r c have "rem_isRunning ?s"
    by blast
  moreover have "rem_reachable
      (store_connection_id (Some ''abc'') (rem_init entry_on True new_REMInterfaceServer))"
    by (intro rem_reachable.intros)
  moreover have "isConnected
      (store_connection_id (Some ''abc'') (rem_init entry_on True new_REMInterfaceServer)) = Inr False"
    by (simp add: isConnected_def store_connection_id_def rem_init_def new_REMInterfaceServer_def
        entry_on_def)
  ultimately show ?thesis using c by simp
qed

end
